theory Spec2Isabelle
  imports Main "HOL-Library.Sublist"
begin

section \<open>JSON-RPC messages\<close>

text \<open>
  A \<^verbatim>\<open>JSONRPCMessage\<close> is a JavaScript object. The transport only ever asks whether the
  keys \<^verbatim>\<open>method\<close> and \<^verbatim>\<open>id\<close> are present and reads the value of \<^verbatim>\<open>id\<close>; everything else
  of the object (parameters, result, error) is carried along unread, here as a string.
  The type \<open>'i\<close> of correlation ids is left open (the source types it as \<^verbatim>\<open>number\<close>).
\<close>

record 'i message =
  msg_method :: "string option"
  msg_id :: "'i option"
  msg_payload :: string

text \<open>\<^verbatim>\<open>"method" in message && "id" in message\<close>\<close>

definition isRequestMessage :: "'i message \<Rightarrow> bool" where
  "isRequestMessage message \<longleftrightarrow> msg_method message \<noteq> None \<and> msg_id message \<noteq> None"

text \<open>\<^verbatim>\<open>"id" in message\<close>\<close>

definition isResponseMessage :: "'i message \<Rightarrow> bool" where
  "isResponseMessage message \<longleftrightarrow> msg_id message \<noteq> None"

section \<open>HttpServerTransport\<close>

text \<open>
  A promise created by \<^verbatim>\<open>handleJSONRPCMessages\<close> is identified by its position in the list
  \<open>promises\<close> of all promises created so far; its entry is \<open>None\<close> while it is unresolved.
  A \<^verbatim>\<open>{resolve, reject}\<close> pair stored in \<^verbatim>\<open>_pendingRequests\<close> is the closure pair of exactly one
  promise, so the table maps an id to that promise (\<^verbatim>\<open>reject\<close> is never called).

  \<^verbatim>\<open>onmessage\<close> is the callback slot the engine installs. The engine is external: the model
  gives the callback the engine's own state \<open>'e\<close> and lets it return, besides the new
  engine state, the messages it hands to \<^verbatim>\<open>send\<close> before the callback itself returns.
  What the engine sends later (from asynchronous work) is an input of the functions below.
\<close>

type_synonym promise = nat

type_synonym ('i, 'e) callback = "'i message \<Rightarrow> 'e \<Rightarrow> 'e \<times> 'i message list"

record ('i, 'e) transport =
  started :: bool
  pendingRequests :: "'i \<rightharpoonup> promise"
  onmessage :: "('i, 'e) callback option"
  promises :: "'i message option list"
  engine :: 'e

datatype adapter_error = AlreadyStarted

definition new_HttpServerTransport :: "'e \<Rightarrow> ('i, 'e) transport" where
  "new_HttpServerTransport e =
     \<lparr>started = False, pendingRequests = Map.empty, onmessage = None, promises = [], engine = e\<rparr>"

text \<open>Calling the \<^verbatim>\<open>resolve\<close> closure of promise \<open>p\<close>: a promise settles once, later calls are ignored.\<close>

definition resolve :: "promise \<Rightarrow> 'i message \<Rightarrow> 'i message option list \<Rightarrow> 'i message option list" where
  "resolve p message heap =
     (if p < length heap \<and> heap ! p = None then heap[p := Some message] else heap)"

text \<open>\<^verbatim>\<open>start\<close>: the returned pair is the state after the call and either the thrown error or success.\<close>

definition start :: "('i, 'e) transport \<Rightarrow> ('i, 'e) transport \<times> (adapter_error + unit)" where
  "start s = (if started s then (s, Inl AlreadyStarted) else (s\<lparr>started := True\<rparr>, Inr ()))"

definition send :: "'i message \<Rightarrow> ('i, 'e) transport \<Rightarrow> ('i, 'e) transport" where
  "send message s =
     (if isResponseMessage message then
        (case msg_id message of
           None \<Rightarrow> s
         | Some i \<Rightarrow>
            (case pendingRequests s i of
               None \<Rightarrow> s
             | Some pendingRequest \<Rightarrow>
                 s\<lparr>promises := resolve pendingRequest message (promises s),
                   pendingRequests := (pendingRequests s)(i := None)\<rparr>))
      else s)"

definition close :: "('i, 'e) transport \<Rightarrow> ('i, 'e) transport" where
  "close s = s"

definition startFreshSession :: "('i, 'e) transport \<Rightarrow> ('i, 'e) transport" where
  "startFreshSession s = s\<lparr>pendingRequests := Map.empty\<rparr>"

text \<open>\<^verbatim>\<open>this.onmessage?.(message)\<close>: nothing happens while the slot is empty.\<close>

definition deliver :: "'i message \<Rightarrow> ('i, 'e) transport \<Rightarrow> ('i, 'e) transport" where
  "deliver message s =
     (case onmessage s of
        None \<Rightarrow> s
      | Some f \<Rightarrow> (case f message (engine s) of (e, sent) \<Rightarrow> fold send sent (s\<lparr>engine := e\<rparr>)))"

text \<open>
  \<^verbatim>\<open>new Promise((resolve, reject) => { this._pendingRequests.set(requestMessage.id, ...) })\<close>:
  the executor of a new promise runs at once, so the entry is written when the promise is
  created; an entry already stored under the id is replaced. The new promise is the one
  at position \<open>length (promises s)\<close>.
  (A message without id cannot reach this function: the list has been filtered.)
\<close>

definition pendingPromise :: "'i message \<Rightarrow> ('i, 'e) transport \<Rightarrow> ('i, 'e) transport" where
  "pendingPromise requestMessage s =
     s\<lparr>promises := promises s @ [None],
       pendingRequests :=
         (case msg_id requestMessage of
            None \<Rightarrow> pendingRequests s
          | Some i \<Rightarrow> (pendingRequests s)(i \<mapsto> length (promises s)))\<rparr>"

text \<open>
  \<^verbatim>\<open>requestMessages.map(...)\<close>: one promise for each request, in the order of the requests;
  all of them exist before the call is suspended.
\<close>

fun awaitedPromises ::
  "'i message list \<Rightarrow> ('i, 'e) transport \<Rightarrow> ('i, 'e) transport \<times> promise list" where
  "awaitedPromises [] s = (s, [])"
| "awaitedPromises (requestMessage # rest) s =
     (case awaitedPromises rest (pendingPromise requestMessage s) of
        (s2, ps) \<Rightarrow> (s2, length (promises s) # ps))"

text \<open>
  What the caller of \<^verbatim>\<open>handleJSONRPCMessages\<close> gets: the value \<^verbatim>\<open>undefined\<close>, one message or an
  array of messages.
\<close>

datatype 'i reply = NoReply | Single "'i message" | Batch "'i message list"

text \<open>
  The call runs without interruption up to its only \<^verbatim>\<open>await\<close>. It has then either returned
  (\<^verbatim>\<open>undefined\<close>, no request in the batch) or is suspended on \<^verbatim>\<open>Promise.all\<close> of the promises
  listed.
\<close>

datatype 'i call = Returned "'i reply" | Awaiting "promise list"

definition handleJSONRPCMessages ::
  "'i message list \<Rightarrow> ('i, 'e) transport \<Rightarrow> ('i, 'e) transport \<times> 'i call" where
  "handleJSONRPCMessages jsonRPCMessages s =
     (let s1 = startFreshSession s;
          s2 = fold deliver jsonRPCMessages s1;
          requestMessages = filter isRequestMessage jsonRPCMessages
      in if length requestMessages = 0 then (s2, Returned NoReply)
         else (case awaitedPromises requestMessages s2 of (s3, ps) \<Rightarrow> (s3, Awaiting ps)))"

text \<open>\<^verbatim>\<open>Promise.all\<close>: settled once every promise is, with the values in the order of the promises.\<close>

definition promise_all :: "promise list \<Rightarrow> 'i message option list \<Rightarrow> 'i message list option" where
  "promise_all ps heap = those (map (\<lambda>p. if p < length heap then heap ! p else None) ps)"

text \<open>
  The rest of the call after the \<^verbatim>\<open>await\<close>:
  \<^verbatim>\<open>responseMessages.length > 1 ? responseMessages : responseMessages[0]\<close>
  (indexing an empty array yields \<^verbatim>\<open>undefined\<close>). \<open>None\<close>: the call is still suspended.
\<close>

definition returned :: "'i call \<Rightarrow> ('i, 'e) transport \<Rightarrow> 'i reply option" where
  "returned c s =
     (case c of
        Returned r \<Rightarrow> Some r
      | Awaiting ps \<Rightarrow>
         (case promise_all ps (promises s) of
            None \<Rightarrow> None
          | Some responseMessages \<Rightarrow>
              Some (if length responseMessages > 1 then Batch responseMessages
                    else (case responseMessages of [] \<Rightarrow> NoReply | m # _ \<Rightarrow> Single m))))"

text \<open>
  One whole invocation: the call, then the messages \<open>sent\<close> that the engine passes to
  \<^verbatim>\<open>send\<close> while the call is suspended, in the order the engine produces them.
\<close>

definition invocation ::
  "'i message list \<Rightarrow> 'i message list \<Rightarrow> ('i, 'e) transport \<Rightarrow> ('i, 'e) transport \<times> 'i reply option" where
  "invocation jsonRPCMessages sent s =
     (case handleJSONRPCMessages jsonRPCMessages s of
        (s1, c) \<Rightarrow> (let s2 = fold send sent s1 in (s2, returned c s2)))"

text \<open>The operations that can be applied to one adapter instance over its lifetime.\<close>

datatype ('i, 'e) operation =
    Start
  | Send "'i message"
  | Close
  | SetOnmessage "('i, 'e) callback"
  | HandleJSONRPCMessages "'i message list"

fun apply_operation :: "('i, 'e) operation \<Rightarrow> ('i, 'e) transport \<Rightarrow> ('i, 'e) transport" where
  "apply_operation Start s = fst (start s)"
| "apply_operation (Send message) s = send message s"
| "apply_operation Close s = close s"
| "apply_operation (SetOnmessage f) s = s\<lparr>onmessage := Some f\<rparr>"
| "apply_operation (HandleJSONRPCMessages jsonRPCMessages) s =
     fst (handleJSONRPCMessages jsonRPCMessages s)"

definition apply_operations ::
  "('i, 'e) operation list \<Rightarrow> ('i, 'e) transport \<Rightarrow> ('i, 'e) transport" where
  "apply_operations ops s = fold apply_operation ops s"

section \<open>The middleware\<close>

text \<open>
  \<^verbatim>\<open>createMcpError\<close> wraps a JSON-RPC error object into an HTTP error. The HTTP error's
  message is \<^verbatim>\<open>JSON.stringify\<close> of the object; the model keeps the object itself.
\<close>

record mcp_error =
  code :: int
  message :: string

record jsonrpc_error =
  jsonrpc :: string
  error :: mcp_error
  id_field :: int

record http_error =
  status :: nat
  envelope :: jsonrpc_error

definition createMcpError :: "nat \<Rightarrow> mcp_error \<Rightarrow> http_error" where
  "createMcpError httpStatusCode mcpError =
     \<lparr>status = httpStatusCode,
      envelope = \<lparr>jsonrpc = ''2.0'', error = mcpError, id_field = 123\<rparr>\<rparr>"

text \<open>
  The event: \<^verbatim>\<open>headers\<close> may be missing altogether, a header may be missing from it, the
  body may be \<^verbatim>\<open>null\<close>.
\<close>

record event =
  headers :: "(string \<rightharpoonup> string) option"
  body :: "string option"
  isBase64Encoded :: bool

record 'i request_context =
  jsonRPCMessages :: "'i message list option"

text \<open>\<^verbatim>\<open>headers?.[k1] ?? headers?.[k2]\<close>\<close>

definition header_value :: "(string \<rightharpoonup> string) option \<Rightarrow> string \<Rightarrow> string \<Rightarrow> string option" where
  "header_value hs k1 k2 =
     (case hs of
        None \<Rightarrow> None
      | Some h \<Rightarrow> (case h k1 of Some v \<Rightarrow> Some v | None \<Rightarrow> h k2))"

text \<open>\<^verbatim>\<open>String.prototype.includes\<close>\<close>

fun string_includes :: "string \<Rightarrow> string \<Rightarrow> bool" where
  "string_includes [] searchString = (searchString = [])"
| "string_includes (c # cs) searchString = (prefix searchString (c # cs) \<or> string_includes cs searchString)"

text \<open>
  The values \<^verbatim>\<open>JSON.parse\<close> produces, and the library functions the body goes through.
  Each of them is called inside the \<^verbatim>\<open>try\<close> block; \<open>None\<close> stands for a call that throws.
\<close>

datatype json =
    JNull
  | JBool bool
  | JNumber int
  | JString string
  | JArray "json list"
  | JObject "(string \<times> json) list"

record 'i library =
  base64_toString :: "string \<Rightarrow> string option"
  JSON_parse :: "string \<Rightarrow> json option"
  JSONRPCMessageSchema :: "json \<Rightarrow> 'i message option"

text \<open>\<^verbatim>\<open>Array.isArray(parsedJSONBody) ? parsedJSONBody : [parsedJSONBody]\<close>\<close>

definition as_array :: "json \<Rightarrow> json list" where
  "as_array parsedJSONBody = (case parsedJSONBody of JArray xs \<Rightarrow> xs | _ \<Rightarrow> [parsedJSONBody])"

text \<open>
  \<^verbatim>\<open>z.string().transform(...).pipe(z.array(JSONRPCMessageSchema)).parse(body)\<close>: the body has
  to be a string, the transformation must not throw, and every element of the array has
  to pass the schema.
\<close>

definition parse_body :: "'i library \<Rightarrow> event \<Rightarrow> 'i message list option" where
  "parse_body lib ev =
     (case body ev of
        None \<Rightarrow> None
      | Some b \<Rightarrow>
         (case (if isBase64Encoded ev then base64_toString lib b else Some b) of
            None \<Rightarrow> None
          | Some decodedBody \<Rightarrow>
             (case JSON_parse lib decodedBody of
                None \<Rightarrow> None
              | Some parsedJSONBody \<Rightarrow>
                  those (map (JSONRPCMessageSchema lib) (as_array parsedJSONBody)))))"

text \<open>
  \<^verbatim>\<open>before\<close>: the returned pair is the context after the call and either the HTTP error
  thrown or success.
\<close>

definition before ::
  "'i library \<Rightarrow> event \<Rightarrow> 'i request_context \<Rightarrow> 'i request_context \<times> (http_error + unit)" where
  "before lib ev context =
     (let contentTypeHeaderValue = header_value (headers ev) ''content-type'' ''Content-Type'';
          acceptHeaderValue = header_value (headers ev) ''accept'' ''Accept''
      in if (case acceptHeaderValue of None \<Rightarrow> True
             | Some v \<Rightarrow> \<not> string_includes v ''application/json'')
         then (context, Inl (createMcpError 406
                 \<lparr>code = - 32000,
                  message = ''Not Acceptable: Client must accept application/json''\<rparr>))
         else if (case contentTypeHeaderValue of None \<Rightarrow> True
                  | Some v \<Rightarrow> \<not> string_includes v ''application/json'')
         then (context, Inl (createMcpError 415
                 \<lparr>code = - 32000,
                  message = ''Unsupported Media Type: Content-Type must be application/json''\<rparr>))
         else (case parse_body lib ev of
                 None \<Rightarrow> (context, Inl (createMcpError 422
                   \<lparr>code = - 32000,
                    message = ''Unprocessable Entity: Invalid or malformed JSON was provided''\<rparr>))
               | Some msgs \<Rightarrow> (context\<lparr>jsonRPCMessages := Some msgs\<rparr>, Inr ())))"

text \<open>
  \<^verbatim>\<open>request.response\<close>: not yet set, \<^verbatim>\<open>null\<close>, a string, or an object with a status code, a
  body and further fields, which the object spread keeps.
\<close>

record response =
  statusCode :: nat
  response_body :: string
  further :: "(string \<times> string) list"

datatype response_value = RUndefined | RNull | RString string | RObject response

text \<open>\<^verbatim>\<open>{ ...request.response, statusCode: c, body: b }\<close>\<close>

definition spread :: "response_value \<Rightarrow> nat \<Rightarrow> string \<Rightarrow> response_value" where
  "spread r c b =
     (case r of
        RObject obj \<Rightarrow> RObject (obj\<lparr>statusCode := c, response_body := b\<rparr>)
      | _ \<Rightarrow> RObject \<lparr>statusCode = c, response_body = b, further = []\<rparr>)"

text \<open>
  \<^verbatim>\<open>after\<close>, for a transport whose connection to the engine is established. \<open>sent\<close> are the
  messages the engine sends while the adapter call is suspended; \<open>JSON_stringify\<close> is the
  serialiser. The result is the transport and \<^verbatim>\<open>request.response\<close> once \<^verbatim>\<open>after\<close> has
  returned, \<open>None\<close> if it is still suspended.
\<close>

definition after ::
  "('i reply \<Rightarrow> string) \<Rightarrow> 'i message list \<Rightarrow> 'i message list \<Rightarrow> response_value \<Rightarrow>
   ('i, 'e) transport \<Rightarrow> ('i, 'e) transport \<times> response_value option" where
  "after JSON_stringify msgs sent request_response s =
     (let r1 = (case request_response of
                  RNull \<Rightarrow> RObject \<lparr>statusCode = 202, response_body = [], further = []\<rparr>
                | RString _ \<Rightarrow> RObject \<lparr>statusCode = 202, response_body = [], further = []\<rparr>
                | _ \<Rightarrow> request_response)
      in case invocation msgs sent s of
           (s2, None) \<Rightarrow> (s2, None)
         | (s2, Some responseMessages) \<Rightarrow>
             (s2, Some (if responseMessages \<noteq> NoReply
                        then spread r1 200 (JSON_stringify responseMessages)
                        else spread r1 202 [])))"

section \<open>Basic facts\<close>

lemma send_started [simp]: "started (send m s) = started s"
  by (simp add: send_def split: option.splits)

lemma send_onmessage [simp]: "onmessage (send m s) = onmessage s"
  by (simp add: send_def split: option.splits)

lemma send_engine [simp]: "engine (send m s) = engine s"
  by (simp add: send_def split: option.splits)

lemma length_resolve [simp]: "length (resolve p m heap) = length heap"
  by (simp add: resolve_def)

lemma send_length [simp]: "length (promises (send m s)) = length (promises s)"
  by (simp add: send_def split: option.splits)

lemma fold_send_started [simp]: "started (fold send ms s) = started s"
  by (induction ms arbitrary: s) simp_all

lemma fold_send_onmessage [simp]: "onmessage (fold send ms s) = onmessage s"
  by (induction ms arbitrary: s) simp_all

lemma fold_send_engine [simp]: "engine (fold send ms s) = engine s"
  by (induction ms arbitrary: s) simp_all

lemma fold_send_length [simp]: "length (promises (fold send ms s)) = length (promises s)"
  by (induction ms arbitrary: s) simp_all

lemma send_no_entry: "pendingRequests s = Map.empty \<Longrightarrow> send m s = s"
  by (simp add: send_def split: option.splits)

lemma fold_send_no_entry: "pendingRequests s = Map.empty \<Longrightarrow> fold send ms s = s"
  by (induction ms) (simp_all add: send_no_entry)

lemma deliver_started [simp]: "started (deliver m s) = started s"
  by (simp add: deliver_def split: option.splits prod.splits)

lemma deliver_onmessage [simp]: "onmessage (deliver m s) = onmessage s"
  by (simp add: deliver_def split: option.splits prod.splits)

lemma fold_deliver_started [simp]: "started (fold deliver ms s) = started s"
  by (induction ms arbitrary: s) simp_all

lemma fold_deliver_onmessage [simp]: "onmessage (fold deliver ms s) = onmessage s"
  by (induction ms arbitrary: s) simp_all

lemma awaitedPromises_fst: "fst (awaitedPromises rs s) = fold pendingPromise rs s"
  by (induction rs arbitrary: s) (simp_all add: split_def)

lemma awaitedPromises_snd:
  "snd (awaitedPromises rs s) = [length (promises s) ..< length (promises s) + length rs]"
proof (induction rs arbitrary: s)
  case Nil
  show ?case by simp
next
  case (Cons r rs)
  have "length (promises (pendingPromise r s)) = Suc (length (promises s))"
    by (simp add: pendingPromise_def)
  then show ?case
    by (auto simp add: split_def Cons.IH upt_rec [of "length (promises s)"] not_less_eq_eq)
qed

lemma pendingPromise_started [simp]: "started (pendingPromise r s) = started s"
  by (simp add: pendingPromise_def)

lemma pendingPromise_onmessage [simp]: "onmessage (pendingPromise r s) = onmessage s"
  by (simp add: pendingPromise_def)

lemma pendingPromise_engine [simp]: "engine (pendingPromise r s) = engine s"
  by (simp add: pendingPromise_def)

lemma fold_pendingPromise_started [simp]: "started (fold pendingPromise rs s) = started s"
  by (induction rs arbitrary: s) simp_all

lemma fold_pendingPromise_onmessage [simp]: "onmessage (fold pendingPromise rs s) = onmessage s"
  by (induction rs arbitrary: s) simp_all

lemma fold_pendingPromise_engine [simp]: "engine (fold pendingPromise rs s) = engine s"
  by (induction rs arbitrary: s) simp_all

lemma fold_pendingPromise_promises:
  "promises (fold pendingPromise rs s) = promises s @ replicate (length rs) None"
proof (induction rs arbitrary: s)
  case Nil
  show ?case by simp
next
  case (Cons r rs)
  have "promises (pendingPromise r s) = promises s @ [None]"
    by (simp add: pendingPromise_def)
  then show ?case
    by (simp add: Cons.IH)
qed

text \<open>While the table is empty, every message passed to \<^verbatim>\<open>send\<close> is dropped.\<close>

lemma deliver_no_entry:
  "pendingRequests s = Map.empty \<Longrightarrow>
   deliver m s = s\<lparr>engine := (case onmessage s of None \<Rightarrow> engine s
                              | Some f \<Rightarrow> fst (f m (engine s)))\<rparr>"
  by (simp add: deliver_def fold_send_no_entry split_def split: option.splits)

lemma fold_deliver_no_entry:
  "pendingRequests s = Map.empty \<Longrightarrow>
   fold deliver ms s =
     s\<lparr>engine := (case onmessage s of None \<Rightarrow> engine s
                   | Some f \<Rightarrow> fold (\<lambda>m e. fst (f m e)) ms (engine s))\<rparr>"
proof (induction ms arbitrary: s)
  case Nil
  show ?case by (simp split: option.splits)
next
  case (Cons m ms)
  have "pendingRequests (deliver m s) = Map.empty"
    using Cons.prems by (simp add: deliver_no_entry)
  then have "fold deliver ms (deliver m s) =
      (deliver m s)\<lparr>engine := (case onmessage (deliver m s) of None \<Rightarrow> engine (deliver m s)
                   | Some f \<Rightarrow> fold (\<lambda>m e. fst (f m e)) ms (engine (deliver m s)))\<rparr>"
    by (rule Cons.IH)
  then show ?case
    using Cons.prems by (simp add: deliver_no_entry split: option.splits)
qed

text \<open>The state in which \<^verbatim>\<open>handleJSONRPCMessages\<close> has dispatched the batch.\<close>

lemma dispatched:
  "fold deliver ms (startFreshSession s) =
     s\<lparr>pendingRequests := Map.empty,
       engine := (case onmessage s of None \<Rightarrow> engine s
                  | Some f \<Rightarrow> fold (\<lambda>m e. fst (f m e)) ms (engine s))\<rparr>"
proof -
  have "pendingRequests (startFreshSession s) = Map.empty"
    by (simp add: startFreshSession_def)
  then show ?thesis
    by (simp add: fold_deliver_no_entry) (simp add: startFreshSession_def split: option.splits)
qed

lemma handle_fst:
  "fst (handleJSONRPCMessages ms s) =
     fold pendingPromise (filter isRequestMessage ms) (fold deliver ms (startFreshSession s))"
  by (simp add: handleJSONRPCMessages_def Let_def split_def awaitedPromises_fst)

lemma handle_snd:
  "snd (handleJSONRPCMessages ms s) =
     (if filter isRequestMessage ms = [] then Returned NoReply
      else Awaiting [length (promises s) ..<
                     length (promises s) + length (filter isRequestMessage ms)])"
  by (simp add: handleJSONRPCMessages_def Let_def split_def awaitedPromises_snd dispatched)

lemma handle_started [simp]: "started (fst (handleJSONRPCMessages ms s)) = started s"
  by (simp add: handle_fst dispatched)

lemma apply_operation_started: "started s \<Longrightarrow> started (apply_operation op s)"
  by (cases op) (simp_all add: start_def close_def)

lemma apply_operations_started: "started s \<Longrightarrow> started (apply_operations ops s)"
  unfolding apply_operations_def
  by (induction ops arbitrary: s) (simp_all add: apply_operation_started)

section \<open>The table after the promises have been created\<close>

lemma table_snoc:
  "pendingRequests (fold pendingPromise (rs @ [r]) s) i =
     (if msg_id r = Some i then Some (length (promises s) + length rs)
      else pendingRequests (fold pendingPromise rs s) i)"
  by (auto simp add: pendingPromise_def fold_pendingPromise_promises split: option.splits)

lemma table_none:
  "Some i \<notin> msg_id ` set rs \<Longrightarrow>
   pendingRequests (fold pendingPromise rs s) i = pendingRequests s i"
proof (induction rs rule: rev_induct)
  case Nil
  show ?case by simp
next
  case (snoc r rs)
  then show ?case unfolding table_snoc by auto
qed

lemma table_last:
  "k < length rs \<Longrightarrow> msg_id (rs ! k) = Some i \<Longrightarrow>
   (\<forall>k'. k < k' \<and> k' < length rs \<longrightarrow> msg_id (rs ! k') \<noteq> Some i) \<Longrightarrow>
   pendingRequests (fold pendingPromise rs s) i = Some (length (promises s) + k)"
proof (induction rs rule: rev_induct)
  case Nil
  then show ?case by simp
next
  case (snoc r rs)
  show ?case
  proof (cases "k = length rs")
    case True
    with snoc.prems(2) show ?thesis unfolding table_snoc by simp
  next
    case False
    with snoc.prems(1) have k: "k < length rs" by simp
    from snoc.prems(3) k have "msg_id ((rs @ [r]) ! length rs) \<noteq> Some i"
      by (auto dest!: spec [of _ "length rs"])
    then have r: "msg_id r \<noteq> Some i" by simp
    have "msg_id (rs ! k) = Some i" using snoc.prems(2) k by (simp add: nth_append)
    moreover have "\<forall>k'. k < k' \<and> k' < length rs \<longrightarrow> msg_id (rs ! k') \<noteq> Some i"
    proof (intro allI impI)
      fix k' assume a: "k < k' \<and> k' < length rs"
      then have "msg_id ((rs @ [r]) ! k') \<noteq> Some i" using snoc.prems(3) by simp
      with a show "msg_id (rs ! k') \<noteq> Some i" by (simp add: nth_append)
    qed
    ultimately have "pendingRequests (fold pendingPromise rs s) i = Some (length (promises s) + k)"
      using k by (intro snoc.IH)
    with r show ?thesis unfolding table_snoc by simp
  qed
qed

lemma table_cases:
  "pendingRequests (fold pendingPromise rs s) i = Some p \<Longrightarrow>
   pendingRequests s i = Some p \<or>
   (\<exists>k < length rs. p = length (promises s) + k \<and> msg_id (rs ! k) = Some i \<and>
      (\<forall>k'. k < k' \<and> k' < length rs \<longrightarrow> msg_id (rs ! k') \<noteq> Some i))"
proof (induction rs arbitrary: p rule: rev_induct)
  case Nil
  then show ?case by simp
next
  case (snoc r rs)
  show ?case
  proof (cases "msg_id r = Some i")
    case True
    with snoc.prems have "p = length (promises s) + length rs" unfolding table_snoc by simp
    with True show ?thesis by (intro disjI2 exI [of _ "length rs"]) auto
  next
    case False
    with snoc.prems have "pendingRequests (fold pendingPromise rs s) i = Some p"
      unfolding table_snoc by simp
    from snoc.IH [OF this] show ?thesis
    proof
      assume "pendingRequests s i = Some p" then show ?thesis by simp
    next
      assume "\<exists>k<length rs. p = length (promises s) + k \<and> msg_id (rs ! k) = Some i \<and>
        (\<forall>k'. k < k' \<and> k' < length rs \<longrightarrow> msg_id (rs ! k') \<noteq> Some i)"
      then obtain k where k: "k < length rs" "p = length (promises s) + k" "msg_id (rs ! k) = Some i"
        "\<forall>k'. k < k' \<and> k' < length rs \<longrightarrow> msg_id (rs ! k') \<noteq> Some i" by blast
      have "\<forall>k'. k < k' \<and> k' < length (rs @ [r]) \<longrightarrow> msg_id ((rs @ [r]) ! k') \<noteq> Some i"
      proof (intro allI impI)
        fix k' assume a: "k < k' \<and> k' < length (rs @ [r])"
        show "msg_id ((rs @ [r]) ! k') \<noteq> Some i"
        proof (cases "k' = length rs")
          case True with False show ?thesis by simp
        next
          case False
          with a have "k' < length rs" by simp
          with a k(4) show ?thesis by (simp add: nth_append)
        qed
      qed
      with k(1,2,3) show ?thesis
        by (intro disjI2 exI [of _ k]) (simp add: nth_append)
    qed
  qed
qed

lemma table_distinct:
  assumes "distinct (map msg_id rs)" "k < length rs" "msg_id (rs ! k) = Some i"
  shows "pendingRequests (fold pendingPromise rs s) i = Some (length (promises s) + k)"
proof (rule table_last [OF assms(2,3)], intro allI impI)
  fix k' assume a: "k < k' \<and> k' < length rs"
  then have "map msg_id rs ! k' \<noteq> map msg_id rs ! k"
    using assms(1,2) by (simp add: nth_eq_iff_index_eq del: nth_map)
  with a assms(2,3) show "msg_id (rs ! k') \<noteq> Some i" by simp
qed

section \<open>What \<^verbatim>\<open>send\<close> resolves\<close>

lemma resolve_other: "p \<noteq> q \<Longrightarrow> resolve q m heap ! p = heap ! p"
  by (simp add: resolve_def)

lemma resolve_unresolved:
  "q < length heap \<Longrightarrow> heap ! q = None \<Longrightarrow> resolve q m heap ! q = Some m"
  by (simp add: resolve_def)

lemma send_table_subset:
  "pendingRequests (send m s) i = Some q \<Longrightarrow> pendingRequests s i = Some q"
  by (auto simp add: send_def split: option.splits if_splits)

lemma send_untouched:
  "p \<notin> ran (pendingRequests s) \<Longrightarrow> promises (send m s) ! p = promises s ! p"
proof (cases "\<exists>i q. msg_id m = Some i \<and> pendingRequests s i = Some q")
  case True
  then obtain i q where iq: "msg_id m = Some i" "pendingRequests s i = Some q" by blast
  assume "p \<notin> ran (pendingRequests s)"
  with iq(2) have "p \<noteq> q" by (auto simp add: ran_def)
  with iq show ?thesis by (simp add: send_def isResponseMessage_def resolve_other)
next
  case False
  then have "send m s = s" by (auto simp add: send_def split: option.splits)
  then show ?thesis by simp
qed

lemma send_ran: "p \<notin> ran (pendingRequests s) \<Longrightarrow> p \<notin> ran (pendingRequests (send m s))"
  by (auto simp add: ran_def dest: send_table_subset)

lemma fold_send_untouched:
  "p \<notin> ran (pendingRequests s) \<Longrightarrow> promises (fold send ms s) ! p = promises s ! p"
proof (induction ms arbitrary: s)
  case Nil
  show ?case by simp
next
  case (Cons m ms)
  from Cons.prems have "p \<notin> ran (pendingRequests (send m s))" by (rule send_ran)
  then have "promises (fold send ms (send m s)) ! p = promises (send m s) ! p" by (rule Cons.IH)
  with Cons.prems show ?case by (simp add: send_untouched)
qed

lemma fold_send_ran:
  "p \<notin> ran (pendingRequests s) \<Longrightarrow> p \<notin> ran (pendingRequests (fold send ms s))"
  by (induction ms arbitrary: s) (simp_all add: send_ran)

text \<open>
  A table whose entries lead to different promises, all of them unresolved: each promise
  is resolved with the first message sent under its id.
\<close>

lemma fold_send_first:
  assumes "\<forall>i j q. pendingRequests s i = Some q \<and> pendingRequests s j = Some q \<longrightarrow> i = j"
    and "\<forall>i q. pendingRequests s i = Some q \<longrightarrow> q < length (promises s) \<and> promises s ! q = None"
    and "pendingRequests s i = Some p"
  shows "promises (fold send ms s) ! p = find (\<lambda>m. msg_id m = Some i) ms"
  using assms
proof (induction ms arbitrary: s)
  case Nil
  then show ?case by simp
next
  case (Cons m ms)
  show ?case
  proof (cases "msg_id m = Some i")
    case True
    have p: "p < length (promises s)" "promises s ! p = None" using Cons.prems(2,3) by auto
    have s': "send m s = s\<lparr>promises := resolve p m (promises s),
                            pendingRequests := (pendingRequests s)(i := None)\<rparr>"
      using True Cons.prems(3) by (simp add: send_def isResponseMessage_def)
    have "p \<notin> ran (pendingRequests (send m s))"
      using Cons.prems(1,3) unfolding s' by (auto simp add: ran_def)
    then have "promises (fold send ms (send m s)) ! p = promises (send m s) ! p"
      by (rule fold_send_untouched)
    also have "\<dots> = Some m" unfolding s' using p by (simp add: resolve_unresolved)
    finally show ?thesis using True by simp
  next
    case False
    have "promises (fold send ms (send m s)) ! p = find (\<lambda>m. msg_id m = Some i) ms"
    proof (rule Cons.IH)
      show "\<forall>i j q. pendingRequests (send m s) i = Some q \<and> pendingRequests (send m s) j = Some q
              \<longrightarrow> i = j"
        using Cons.prems(1) by (blast dest: send_table_subset)
      show "pendingRequests (send m s) i = Some p"
        using False Cons.prems(3) by (auto simp add: send_def split: option.splits)
      show "\<forall>i q. pendingRequests (send m s) i = Some q \<longrightarrow>
              q < length (promises (send m s)) \<and> promises (send m s) ! q = None"
      proof (intro allI impI)
        fix j q assume a: "pendingRequests (send m s) j = Some q"
        then have old: "pendingRequests s j = Some q" by (rule send_table_subset)
        then have q: "q < length (promises s)" "promises s ! q = None" using Cons.prems(2) by auto
        have "promises (send m s) ! q = promises s ! q"
        proof (cases "\<exists>k r. msg_id m = Some k \<and> pendingRequests s k = Some r")
          case True
          then obtain k r where kr: "msg_id m = Some k" "pendingRequests s k = Some r" by blast
          then have s': "send m s = s\<lparr>promises := resolve r m (promises s),
                            pendingRequests := (pendingRequests s)(k := None)\<rparr>"
            by (simp add: send_def isResponseMessage_def)
          from a have "j \<noteq> k" unfolding s' by auto
          with Cons.prems(1) old kr(2) have "q \<noteq> r" by blast
          then show ?thesis unfolding s' by (simp add: resolve_other)
        next
          case False
          then have "send m s = s" by (auto simp add: send_def split: option.splits)
          then show ?thesis by simp
        qed
        with q show "q < length (promises (send m s)) \<and> promises (send m s) ! q = None" by simp
      qed
    qed
    with False show ?thesis by simp
  qed
qed

lemma those_map_Some:
  "(\<And>x. x \<in> set xs \<Longrightarrow> f x \<noteq> None) \<Longrightarrow> those (map f xs) = Some (map (\<lambda>x. the (f x)) xs)"
proof (induction xs)
  case Nil
  show ?case by simp
next
  case (Cons a xs)
  from Cons.prems [of a] obtain y where "f a = Some y" by auto
  moreover have "those (map f xs) = Some (map (\<lambda>x. the (f x)) xs)"
    using Cons.prems by (intro Cons.IH) simp
  ultimately show ?case by simp
qed

lemma those_map_None:
  "x \<in> set xs \<Longrightarrow> f x = None \<Longrightarrow> those (map f xs) = None"
  by (induction xs) (auto split: option.splits)

lemma handle_table_cases:
  assumes "pendingRequests (fst (handleJSONRPCMessages msgs s)) i = Some p"
  shows "\<exists>k < length (filter isRequestMessage msgs).
           p = length (promises s) + k \<and> msg_id (filter isRequestMessage msgs ! k) = Some i \<and>
           (\<forall>k'. k < k' \<and> k' < length (filter isRequestMessage msgs) \<longrightarrow>
              msg_id (filter isRequestMessage msgs ! k') \<noteq> Some i)"
  using table_cases [OF assms [unfolded handle_fst dispatched]] by simp

lemma handle_promises:
  "promises (fst (handleJSONRPCMessages msgs s)) =
     promises s @ replicate (length (filter isRequestMessage msgs)) None"
  by (simp add: handle_fst dispatched fold_pendingPromise_promises)

lemma request_id: "k < length (filter P ms) \<Longrightarrow> P (filter P ms ! k)"
  using nth_mem [of k "filter P ms"] by simp

lemma awaited_reply:
  assumes d: "distinct (map msg_id (filter isRequestMessage msgs))"
    and k: "k < length (filter isRequestMessage msgs)"
  shows "promises (fold send sent (fst (handleJSONRPCMessages msgs s))) ! (length (promises s) + k) =
           find (\<lambda>m. msg_id m = msg_id (filter isRequestMessage msgs ! k)) sent"
proof -
  let ?rs = "filter isRequestMessage msgs"
  let ?s1 = "fst (handleJSONRPCMessages msgs s)"
  from k have "isRequestMessage (?rs ! k)" by (rule request_id)
  then obtain i where i: "msg_id (?rs ! k) = Some i" by (auto simp add: isRequestMessage_def)
  have entry: "pendingRequests ?s1 i = Some (length (promises s) + k)"
    unfolding handle_fst dispatched by (simp add: table_distinct [OF d k i])
  have inj: "\<forall>i j q. pendingRequests ?s1 i = Some q \<and> pendingRequests ?s1 j = Some q \<longrightarrow> i = j"
  proof (intro allI impI)
    fix i j q assume a: "pendingRequests ?s1 i = Some q \<and> pendingRequests ?s1 j = Some q"
    from a obtain k1 where k1: "q = length (promises s) + k1" "msg_id (?rs ! k1) = Some i"
      using handle_table_cases [of msgs s i q] by blast
    from a obtain k2 where k2: "q = length (promises s) + k2" "msg_id (?rs ! k2) = Some j"
      using handle_table_cases [of msgs s j q] by blast
    from k1 k2 show "i = j" by simp
  qed
  have fresh: "\<forall>i q. pendingRequests ?s1 i = Some q \<longrightarrow>
      q < length (promises ?s1) \<and> promises ?s1 ! q = None"
  proof (intro allI impI)
    fix i q assume "pendingRequests ?s1 i = Some q"
    then obtain k1 where "k1 < length ?rs" "q = length (promises s) + k1"
      using handle_table_cases [of msgs s i q] by blast
    then show "q < length (promises ?s1) \<and> promises ?s1 ! q = None"
      by (simp add: handle_promises nth_append)
  qed
  show ?thesis using fold_send_first [OF inj fresh entry, of sent] i by simp
qed

lemma find_id: "find (\<lambda>m. msg_id m = x) sent = Some y \<Longrightarrow> msg_id y = x \<and> y \<in> set sent"
  by (auto simp add: find_Some_iff)

section \<open>Starting the adapter\<close>

text \<open>
  C8. A new adapter instance is not started. A call of \<^verbatim>\<open>start\<close> on an instance that is not
  started succeeds and sets the flag. After any call of \<^verbatim>\<open>start\<close>, and whatever operations
  are applied to the instance afterwards, a further call of \<^verbatim>\<open>start\<close> throws and leaves the
  whole state of the adapter as it was.
\<close>

theorem start_only_once:
  "\<not> started (new_HttpServerTransport e) \<and>
   (\<not> started s \<longrightarrow> start s = (s\<lparr>started := True\<rparr>, Inr ())) \<and>
   (let s1 = apply_operations ops (fst (start s)) in start s1 = (s1, Inl AlreadyStarted))"
proof -
  have "started (fst (start s))" by (simp add: start_def)
  then have "started (apply_operations ops (fst (start s)))" by (rule apply_operations_started)
  then show ?thesis by (simp add: start_def new_HttpServerTransport_def Let_def)
qed

theorem start_only_once_witness:
  "\<not> started (new_HttpServerTransport () :: (nat, unit) transport) \<and>
   start (new_HttpServerTransport () :: (nat, unit) transport) =
     ((new_HttpServerTransport ())\<lparr>started := True\<rparr>, Inr ()) \<and>
   start (apply_operations
            [Send \<lparr>msg_method = None, msg_id = Some 1, msg_payload = ''ok''\<rparr>, Start, Close]
            (fst (start (new_HttpServerTransport () :: (nat, unit) transport)))) =
     (apply_operations
            [Send \<lparr>msg_method = None, msg_id = Some 1, msg_payload = ''ok''\<rparr>, Start, Close]
            (fst (start (new_HttpServerTransport () :: (nat, unit) transport))), Inl AlreadyStarted)"
  using start_only_once [of "()" "new_HttpServerTransport () :: (nat, unit) transport"
      "[Send \<lparr>msg_method = None, msg_id = Some 1, msg_payload = ''ok''\<rparr>, Start, Close]"]
  by (simp add: new_HttpServerTransport_def Let_def start_def apply_operations_def send_def close_def
      isResponseMessage_def)

section \<open>Messages that \<^verbatim>\<open>send\<close> takes for responses\<close>

text \<open>
  C2. According to the specification a message that is not a response, such as a request
  of the engine (method and id), is dropped by \<^verbatim>\<open>send\<close> and never resolves an entry of the
  table. The guard \<^verbatim>\<open>isResponseMessage\<close> only asks for the key \<^verbatim>\<open>id\<close>, though: with the
  client's request 1 pending, a request of the engine with id 1 passes the guard, resolves
  the entry, and is returned to the caller as the reply.
\<close>

theorem send_resolves_with_request:
  "isRequestMessage \<lparr>msg_method = Some ''ping'', msg_id = Some (1::nat), msg_payload = ''''\<rparr> \<and>
   invocation
     [\<lparr>msg_method = Some ''tools/call'', msg_id = Some (1::nat), msg_payload = ''x''\<rparr>]
     [\<lparr>msg_method = Some ''ping'', msg_id = Some 1, msg_payload = ''''\<rparr>]
     (new_HttpServerTransport ()) =
   (\<lparr>started = False, pendingRequests = Map.empty, onmessage = None,
     promises = [Some \<lparr>msg_method = Some ''ping'', msg_id = Some 1, msg_payload = ''''\<rparr>],
     engine = ()\<rparr>,
    Some (Single \<lparr>msg_method = Some ''ping'', msg_id = Some 1, msg_payload = ''''\<rparr>))"
  by (simp add: invocation_def handleJSONRPCMessages_def deliver_def pendingPromise_def startFreshSession_def
      new_HttpServerTransport_def isRequestMessage_def isResponseMessage_def send_def
      resolve_def returned_def promise_all_def Let_def)

section \<open>Replies in the order of the requests\<close>

text \<open>
  C1. Take a batch whose requests (the messages with method and id) are at least one and
  have pairwise distinct ids, and let the engine pass to \<^verbatim>\<open>send\<close>, in any order and among any
  other messages, a message for the id of every request. Then \<^verbatim>\<open>handleJSONRPCMessages\<close>
  returns: for one request the single message sent under its id, for several an array with
  one message for each request, the \<open>i\<close>-th carrying the id of the \<open>i\<close>-th request. Every
  message returned is one the engine sent (none is taken from the input), and each is the
  first one sent under its id.
\<close>

theorem replies_in_request_order:
  assumes "filter isRequestMessage msgs \<noteq> []"
    and "distinct (map msg_id (filter isRequestMessage msgs))"
    and "\<forall>r \<in> set (filter isRequestMessage msgs). \<exists>m \<in> set sent. msg_id m = msg_id r"
  shows "\<exists>replies.
           those (map (\<lambda>r. find (\<lambda>m. msg_id m = msg_id r) sent) (filter isRequestMessage msgs)) =
             Some replies \<and>
           length replies = length (filter isRequestMessage msgs) \<and>
           map msg_id replies = map msg_id (filter isRequestMessage msgs) \<and>
           set replies \<subseteq> set sent \<and>
           snd (invocation msgs sent s) =
             Some (case replies of [m] \<Rightarrow> Single m | _ \<Rightarrow> Batch replies)"
proof -
  let ?rs = "filter isRequestMessage msgs"
  let ?f = "\<lambda>r. find (\<lambda>m. msg_id m = msg_id r) sent"
  let ?replies = "map (\<lambda>r. the (?f r)) ?rs"
  let ?n = "length (promises s)"
  let ?s2 = "fold send sent (fst (handleJSONRPCMessages msgs s))"
  have found: "?f r \<noteq> None" if "r \<in> set ?rs" for r
    using assms(3) that by (auto simp add: find_None_iff)
  then have those: "those (map ?f ?rs) = Some ?replies" by (rule those_map_Some)
  have each: "msg_id (the (?f r)) = msg_id r \<and> the (?f r) \<in> set sent" if "r \<in> set ?rs" for r
  proof -
    from found [OF that] obtain y where "?f r = Some y" by blast
    then show ?thesis using find_id [of "msg_id r" sent y] by simp
  qed
  have ids: "map msg_id ?replies = map msg_id ?rs" using each by simp
  have sub: "set ?replies \<subseteq> set sent" using each by auto
  have "map (\<lambda>p. if p < length (promises ?s2) then promises ?s2 ! p else None)
          [?n ..< ?n + length ?rs] = map ?f ?rs"
  proof (rule nth_equalityI)
    show "length (map (\<lambda>p. if p < length (promises ?s2) then promises ?s2 ! p else None)
          [?n ..< ?n + length ?rs]) = length (map ?f ?rs)" by simp
  next
    fix k assume "k < length (map (\<lambda>p. if p < length (promises ?s2) then promises ?s2 ! p else None)
          [?n ..< ?n + length ?rs])"
    then have k: "k < length ?rs" by simp
    then show "map (\<lambda>p. if p < length (promises ?s2) then promises ?s2 ! p else None)
          [?n ..< ?n + length ?rs] ! k = map ?f ?rs ! k"
      using awaited_reply [OF assms(2) k, of sent s] by (simp add: handle_promises)
  qed
  then have all: "promise_all [?n ..< ?n + length ?rs] (promises ?s2) = Some ?replies"
    using those by (simp add: promise_all_def)
  have len: "length ?replies = length ?rs" by simp
  have "returned (Awaiting [?n ..< ?n + length ?rs]) ?s2 =
          Some (case ?replies of [m] \<Rightarrow> Single m | _ \<Rightarrow> Batch ?replies)"
    unfolding returned_def call.case all option.case
    using assms(1) by (cases ?replies rule: list.exhaust; simp split: list.splits)
  then have "snd (invocation msgs sent s) =
          Some (case ?replies of [m] \<Rightarrow> Single m | _ \<Rightarrow> Batch ?replies)"
    using assms(1) handle_snd [of msgs s] by (simp add: invocation_def split_def Let_def)
  with those len ids sub show ?thesis by blast
qed

theorem replies_in_request_order_witness:
  "snd (invocation
     [\<lparr>msg_method = Some ''tools/call'', msg_id = Some (1::nat), msg_payload = ''a''\<rparr>,
      \<lparr>msg_method = Some ''notifications/initialized'', msg_id = None, msg_payload = ''''\<rparr>,
      \<lparr>msg_method = None, msg_id = Some 9, msg_payload = ''stray''\<rparr>,
      \<lparr>msg_method = Some ''tools/list'', msg_id = Some 2, msg_payload = ''b''\<rparr>]
     [\<lparr>msg_method = None, msg_id = Some 2, msg_payload = ''second''\<rparr>,
      \<lparr>msg_method = None, msg_id = Some 7, msg_payload = ''unknown''\<rparr>,
      \<lparr>msg_method = None, msg_id = Some 1, msg_payload = ''first''\<rparr>]
     (new_HttpServerTransport ())) =
   Some (Batch
     [\<lparr>msg_method = None, msg_id = Some 1, msg_payload = ''first''\<rparr>,
      \<lparr>msg_method = None, msg_id = Some 2, msg_payload = ''second''\<rparr>])"
proof -
  let ?msgs = "[\<lparr>msg_method = Some ''tools/call'', msg_id = Some (1::nat), msg_payload = ''a''\<rparr>,
      \<lparr>msg_method = Some ''notifications/initialized'', msg_id = None, msg_payload = ''''\<rparr>,
      \<lparr>msg_method = None, msg_id = Some 9, msg_payload = ''stray''\<rparr>,
      \<lparr>msg_method = Some ''tools/list'', msg_id = Some 2, msg_payload = ''b''\<rparr>]"
  let ?sent = "[\<lparr>msg_method = None, msg_id = Some (2::nat), msg_payload = ''second''\<rparr>,
      \<lparr>msg_method = None, msg_id = Some 7, msg_payload = ''unknown''\<rparr>,
      \<lparr>msg_method = None, msg_id = Some 1, msg_payload = ''first''\<rparr>]"
  have 1: "filter isRequestMessage ?msgs \<noteq> []" by (simp add: isRequestMessage_def)
  have 2: "distinct (map msg_id (filter isRequestMessage ?msgs))"
    by (simp add: isRequestMessage_def)
  have 3: "\<forall>r \<in> set (filter isRequestMessage ?msgs). \<exists>m \<in> set ?sent. msg_id m = msg_id r"
    by (simp add: isRequestMessage_def)
  from replies_in_request_order [OF 1 2 3, of "new_HttpServerTransport ()"]
  obtain replies where
    r: "those (map (\<lambda>r. find (\<lambda>m. msg_id m = msg_id r) ?sent) (filter isRequestMessage ?msgs)) =
          Some replies"
    and out: "snd (invocation ?msgs ?sent (new_HttpServerTransport ())) =
          Some (case replies of [m] \<Rightarrow> Single m | _ \<Rightarrow> Batch replies)"
    by blast
  from r have "replies = [\<lparr>msg_method = None, msg_id = Some 1, msg_payload = ''first''\<rparr>,
      \<lparr>msg_method = None, msg_id = Some 2, msg_payload = ''second''\<rparr>]"
    by (simp add: isRequestMessage_def)
  with out show ?thesis by simp
qed

section \<open>Dispatch to the engine\<close>

lemma fold_append_log: "(\<And>m e. g m e = e @ [m]) \<Longrightarrow> fold g ms e0 = e0 @ ms"
  by (induction ms arbitrary: e0) simp_all

lemma handle_engine:
  "engine (fst (handleJSONRPCMessages msgs s)) =
     (case onmessage s of None \<Rightarrow> engine s
      | Some f \<Rightarrow> fold (\<lambda>m e. fst (f m e)) msgs (engine s))"
  by (simp add: handle_fst dispatched)

text \<open>
  C7. With a callback \<open>f\<close> installed in \<^verbatim>\<open>onmessage\<close>, the engine's state at the moment
  \<^verbatim>\<open>handleJSONRPCMessages\<close> returns or is suspended is the state obtained by calling \<open>f\<close> on
  every message of the batch, once each, in the order of the batch; nothing that happens
  while the call is suspended changes that. In particular a callback that appends each
  message it receives to a log has appended exactly the batch. No assumption is made on
  the batch: it may consist of notifications only.
  (With no callback installed, \<^verbatim>\<open>onmessage?.(...)\<close> calls nothing: \<open>handle_engine\<close>.)
\<close>

theorem dispatched_once_in_order:
  assumes "onmessage s = Some f"
  shows "engine (fst (handleJSONRPCMessages msgs s)) = fold (\<lambda>m e. fst (f m e)) msgs (engine s) \<and>
         engine (fst (invocation msgs sent s)) = fold (\<lambda>m e. fst (f m e)) msgs (engine s) \<and>
         ((\<forall>m e. fst (f m e) = e @ [m]) \<longrightarrow>
            engine (fst (handleJSONRPCMessages msgs s)) = engine s @ msgs)"
proof -
  have 1: "engine (fst (handleJSONRPCMessages msgs s)) = fold (\<lambda>m e. fst (f m e)) msgs (engine s)"
    using assms by (simp add: handle_engine)
  have 2: "engine (fst (invocation msgs sent s)) = engine (fst (handleJSONRPCMessages msgs s))"
    by (simp add: invocation_def split_def Let_def)
  have 3: "fold (\<lambda>m e. fst (f m e)) msgs (engine s) = engine s @ msgs"
    if "\<forall>m e. fst (f m e) = e @ [m]"
    using that by (intro fold_append_log) simp
  from 1 2 3 show ?thesis by simp
qed

theorem dispatched_once_in_order_witness:
  "engine (fst (handleJSONRPCMessages
      [\<lparr>msg_method = Some ''ping'', msg_id = None, msg_payload = ''''\<rparr>,
       \<lparr>msg_method = Some ''notifications/initialized'', msg_id = None, msg_payload = ''''\<rparr>]
      ((new_HttpServerTransport [] :: (nat, nat message list) transport)
         \<lparr>onmessage := Some (\<lambda>m e. (e @ [m], []))\<rparr>))) =
     [\<lparr>msg_method = Some ''ping'', msg_id = None, msg_payload = ''''\<rparr>,
      \<lparr>msg_method = Some ''notifications/initialized'', msg_id = None, msg_payload = ''''\<rparr>] \<and>
   snd (handleJSONRPCMessages
      [\<lparr>msg_method = Some ''ping'', msg_id = None, msg_payload = ''''\<rparr>,
       \<lparr>msg_method = Some ''notifications/initialized'', msg_id = None, msg_payload = ''''\<rparr>]
      ((new_HttpServerTransport [] :: (nat, nat message list) transport)
         \<lparr>onmessage := Some (\<lambda>m e. (e @ [m], []))\<rparr>)) = Returned NoReply"
proof -
  let ?f = "(\<lambda>m e. (e @ [m], [])) :: (nat, nat message list) callback"
  let ?s = "(new_HttpServerTransport [] :: (nat, nat message list) transport)\<lparr>onmessage := Some ?f\<rparr>"
  have h: "onmessage ?s = Some ?f" by simp
  have l: "\<forall>m e. fst (?f m e) = e @ [m]" by simp
  have e: "engine ?s = []" by (simp add: new_HttpServerTransport_def)
  from dispatched_once_in_order [OF h] l e show ?thesis
    by (simp add: handle_snd isRequestMessage_def)
qed

section \<open>Batches without a request\<close>

lemma handle_no_request:
  "filter isRequestMessage msgs = [] \<Longrightarrow>
   handleJSONRPCMessages msgs s =
     (s\<lparr>pendingRequests := Map.empty,
        engine := (case onmessage s of None \<Rightarrow> engine s
                   | Some f \<Rightarrow> fold (\<lambda>m e. fst (f m e)) msgs (engine s))\<rparr>,
      Returned NoReply)"
  by (simp add: handleJSONRPCMessages_def Let_def dispatched)

lemma invocation_no_request:
  assumes "filter isRequestMessage msgs = []"
  shows "invocation msgs sent s = (fst (handleJSONRPCMessages msgs s), Some NoReply)"
proof -
  have "pendingRequests (fst (handleJSONRPCMessages msgs s)) = Map.empty"
    using assms by (simp add: handle_no_request)
  then have "fold send sent (fst (handleJSONRPCMessages msgs s)) = fst (handleJSONRPCMessages msgs s)"
    by (rule fold_send_no_entry)
  moreover have "snd (handleJSONRPCMessages msgs s) = Returned NoReply"
    using assms by (simp add: handle_no_request)
  ultimately show ?thesis
    by (simp add: invocation_def split_def Let_def returned_def)
qed

lemma spread_object:
  "\<exists>resp. spread r c b = RObject resp \<and> statusCode resp = c \<and> response_body resp = b"
  by (cases r) (simp_all add: spread_def)

text \<open>
  C4. If the batch holds no request, \<^verbatim>\<open>handleJSONRPCMessages\<close> returns \<^verbatim>\<open>undefined\<close> at once,
  the table is empty and no promise has been created; \<^verbatim>\<open>after\<close> then answers with status
  202 and an empty body, whatever the engine sends in the meantime. Whenever the adapter
  returns a message or an array of messages, \<^verbatim>\<open>after\<close> answers with status 200 and
  \<^verbatim>\<open>JSON.stringify\<close> of what was returned as the body.
\<close>

theorem no_request_accepted:
  "(filter isRequestMessage msgs = [] \<longrightarrow>
      snd (handleJSONRPCMessages msgs s) = Returned NoReply \<and>
      pendingRequests (fst (handleJSONRPCMessages msgs s)) = Map.empty \<and>
      promises (fst (handleJSONRPCMessages msgs s)) = promises s \<and>
      pendingRequests (fst (after JSON_stringify msgs sent r s)) = Map.empty \<and>
      (\<exists>resp. snd (after JSON_stringify msgs sent r s) = Some (RObject resp) \<and>
         statusCode resp = 202 \<and> response_body resp = [])) \<and>
   (\<forall>responseMessages.
      snd (invocation msgs sent s) = Some responseMessages \<and> responseMessages \<noteq> NoReply \<longrightarrow>
      (\<exists>resp. snd (after JSON_stringify msgs sent r s) = Some (RObject resp) \<and>
         statusCode resp = 200 \<and> response_body resp = JSON_stringify responseMessages))"
proof (intro conjI impI allI)
  assume a: "filter isRequestMessage msgs = []"
  show "snd (handleJSONRPCMessages msgs s) = Returned NoReply"
    using a by (simp add: handle_no_request)
  show "pendingRequests (fst (handleJSONRPCMessages msgs s)) = Map.empty"
    using a by (simp add: handle_no_request)
  show "promises (fst (handleJSONRPCMessages msgs s)) = promises s"
    using a by (simp add: handle_no_request)
  show "pendingRequests (fst (after JSON_stringify msgs sent r s)) = Map.empty"
    using a by (simp add: after_def invocation_no_request handle_no_request)
  show "\<exists>resp. snd (after JSON_stringify msgs sent r s) = Some (RObject resp) \<and>
         statusCode resp = 202 \<and> response_body resp = []"
    using a by (simp add: after_def invocation_no_request spread_object)
next
  fix responseMessages
  assume a: "snd (invocation msgs sent s) = Some responseMessages \<and> responseMessages \<noteq> NoReply"
  then obtain s2 where "invocation msgs sent s = (s2, Some responseMessages)"
    by (cases "invocation msgs sent s") auto
  then show "\<exists>resp. snd (after JSON_stringify msgs sent r s) = Some (RObject resp) \<and>
         statusCode resp = 200 \<and> response_body resp = JSON_stringify responseMessages"
    using a by (simp add: after_def Let_def spread_object)
qed

theorem no_request_accepted_witness:
  "after (\<lambda>r. case r of Single m \<Rightarrow> msg_payload m | _ \<Rightarrow> ''[]'')
     [\<lparr>msg_method = Some ''ping'', msg_id = None, msg_payload = ''''\<rparr>] [] RUndefined
     (new_HttpServerTransport () :: (nat, unit) transport) =
     (new_HttpServerTransport (),
      Some (RObject \<lparr>statusCode = 202, response_body = [], further = []\<rparr>)) \<and>
   after (\<lambda>r. case r of Single m \<Rightarrow> msg_payload m | _ \<Rightarrow> ''[]'')
     [\<lparr>msg_method = Some ''code-review'', msg_id = Some 1, msg_payload = ''x=1''\<rparr>]
     [\<lparr>msg_method = None, msg_id = Some 1, msg_payload = ''result''\<rparr>] RNull
     (new_HttpServerTransport () :: (nat, unit) transport) =
     ((new_HttpServerTransport ())
        \<lparr>promises := [Some \<lparr>msg_method = None, msg_id = Some 1, msg_payload = ''result''\<rparr>]\<rparr>,
      Some (RObject \<lparr>statusCode = 200, response_body = ''result'', further = []\<rparr>))"
  using no_request_accepted [of "[\<lparr>msg_method = Some ''ping'', msg_id = None, msg_payload = ''''\<rparr>]"
      "new_HttpServerTransport () :: (nat, unit) transport"
      "\<lambda>r. case r of Single m \<Rightarrow> msg_payload m | _ \<Rightarrow> ''[]''" "[]" RUndefined]
    no_request_accepted [of
      "[\<lparr>msg_method = Some ''code-review'', msg_id = Some 1, msg_payload = ''x=1''\<rparr>]"
      "new_HttpServerTransport () :: (nat, unit) transport"
      "\<lambda>r. case r of Single m \<Rightarrow> msg_payload m | _ \<Rightarrow> ''[]''"
      "[\<lparr>msg_method = None, msg_id = Some 1, msg_payload = ''result''\<rparr>]" RNull]
  by (simp add: after_def invocation_def handleJSONRPCMessages_def startFreshSession_def
      new_HttpServerTransport_def isRequestMessage_def isResponseMessage_def send_def
      resolve_def returned_def promise_all_def Let_def deliver_def pendingPromise_def spread_def)

section \<open>A fresh session for every call\<close>

lemma table_dom:
  "pendingRequests (fold pendingPromise rs s) i \<noteq> None \<longleftrightarrow>
     Some i \<in> msg_id ` set rs \<or> pendingRequests s i \<noteq> None"
proof (induction rs rule: rev_induct)
  case Nil
  show ?case by simp
next
  case (snoc r rs)
  show ?case unfolding table_snoc using snoc.IH by auto
qed

lemma handle_dom:
  "dom (pendingRequests (fst (handleJSONRPCMessages msgs s))) =
     {i. \<exists>r \<in> set msgs. isRequestMessage r \<and> msg_id r = Some i}"
proof -
  have "pendingRequests (fst (handleJSONRPCMessages msgs s)) i \<noteq> None \<longleftrightarrow>
          (\<exists>r \<in> set msgs. isRequestMessage r \<and> msg_id r = Some i)" for i
    unfolding handle_fst dispatched table_dom by (force simp add: image_iff)
  then show ?thesis by (auto simp add: dom_def)
qed

lemma send_unknown_id:
  assumes "\<forall>r \<in> set msgs. isRequestMessage r \<longrightarrow> msg_id r \<noteq> msg_id m"
  shows "send m (fst (handleJSONRPCMessages msgs s)) = fst (handleJSONRPCMessages msgs s)"
proof (cases "msg_id m")
  case None
  then show ?thesis by (simp add: send_def)
next
  case (Some i)
  with assms have "i \<notin> dom (pendingRequests (fst (handleJSONRPCMessages msgs s)))"
    unfolding handle_dom by auto
  then have "pendingRequests (fst (handleJSONRPCMessages msgs s)) i = None" by auto
  with Some show ?thesis by (simp add: send_def)
qed

text \<open>
  C3. Whatever the table holds when \<^verbatim>\<open>handleJSONRPCMessages\<close> is called, the call proceeds
  as from the empty table, and the table is empty at every point of the dispatch of the
  batch. When the call returns or is suspended, the table holds entries for the ids of
  this batch's requests and no others, and no promise that existed before the call has
  been touched (not even by a response the engine sends from inside the callback). A
  message sent afterwards under an id that no request of this batch has, such as the id of
  an entry of an earlier call, changes nothing at all.
\<close>

theorem fresh_session:
  "handleJSONRPCMessages msgs (s\<lparr>pendingRequests := t\<rparr>) =
     handleJSONRPCMessages msgs (s\<lparr>pendingRequests := Map.empty\<rparr>) \<and>
   (\<forall>n. pendingRequests (fold deliver (take n msgs) (startFreshSession s)) = Map.empty) \<and>
   dom (pendingRequests (fst (handleJSONRPCMessages msgs s))) =
     {i. \<exists>r \<in> set msgs. isRequestMessage r \<and> msg_id r = Some i} \<and>
   take (length (promises s)) (promises (fst (handleJSONRPCMessages msgs s))) = promises s \<and>
   (\<forall>m. (\<forall>r \<in> set msgs. isRequestMessage r \<longrightarrow> msg_id r \<noteq> msg_id m) \<longrightarrow>
      send m (fst (handleJSONRPCMessages msgs s)) = fst (handleJSONRPCMessages msgs s))"
proof (intro conjI allI impI)
  show "handleJSONRPCMessages msgs (s\<lparr>pendingRequests := t\<rparr>) =
     handleJSONRPCMessages msgs (s\<lparr>pendingRequests := Map.empty\<rparr>)"
    by (simp add: handleJSONRPCMessages_def startFreshSession_def)
  show "pendingRequests (fold deliver (take n msgs) (startFreshSession s)) = Map.empty" for n
    by (simp add: dispatched)
  show "dom (pendingRequests (fst (handleJSONRPCMessages msgs s))) =
     {i. \<exists>r \<in> set msgs. isRequestMessage r \<and> msg_id r = Some i}"
    by (rule handle_dom)
  show "take (length (promises s)) (promises (fst (handleJSONRPCMessages msgs s))) = promises s"
    by (simp add: handle_promises)
  show "send m (fst (handleJSONRPCMessages msgs s)) = fst (handleJSONRPCMessages msgs s)"
    if "\<forall>r \<in> set msgs. isRequestMessage r \<longrightarrow> msg_id r \<noteq> msg_id m" for m
    using that by (rule send_unknown_id)
qed

theorem fresh_session_witness:
  "promises (fst (handleJSONRPCMessages
      [\<lparr>msg_method = Some ''tools/call'', msg_id = Some (1::nat), msg_payload = ''a''\<rparr>]
      \<lparr>started = True, pendingRequests = [7 \<mapsto> 0],
       onmessage = Some (\<lambda>m e. (e, [\<lparr>msg_method = None, msg_id = Some 7, msg_payload = ''late''\<rparr>])),
       promises = [None], engine = ()\<rparr>)) = [None, None] \<and>
   pendingRequests (fst (handleJSONRPCMessages
      [\<lparr>msg_method = Some ''tools/call'', msg_id = Some (1::nat), msg_payload = ''a''\<rparr>]
      \<lparr>started = True, pendingRequests = [7 \<mapsto> 0],
       onmessage = Some (\<lambda>m e. (e, [\<lparr>msg_method = None, msg_id = Some 7, msg_payload = ''late''\<rparr>])),
       promises = [None], engine = ()\<rparr>)) 7 = None \<and>
   send \<lparr>msg_method = None, msg_id = Some 7, msg_payload = ''late''\<rparr>
     (fst (handleJSONRPCMessages
      [\<lparr>msg_method = Some ''tools/call'', msg_id = Some (1::nat), msg_payload = ''a''\<rparr>]
      \<lparr>started = True, pendingRequests = [7 \<mapsto> 0],
       onmessage = Some (\<lambda>m e. (e, [\<lparr>msg_method = None, msg_id = Some 7, msg_payload = ''late''\<rparr>])),
       promises = [None], engine = ()\<rparr>)) =
     fst (handleJSONRPCMessages
      [\<lparr>msg_method = Some ''tools/call'', msg_id = Some (1::nat), msg_payload = ''a''\<rparr>]
      \<lparr>started = True, pendingRequests = [7 \<mapsto> 0],
       onmessage = Some (\<lambda>m e. (e, [\<lparr>msg_method = None, msg_id = Some 7, msg_payload = ''late''\<rparr>])),
       promises = [None], engine = ()\<rparr>)"
proof -
  let ?late = "\<lparr>msg_method = None, msg_id = Some (7::nat), msg_payload = ''late''\<rparr>"
  let ?msgs = "[\<lparr>msg_method = Some ''tools/call'', msg_id = Some (1::nat), msg_payload = ''a''\<rparr>]"
  let ?s = "\<lparr>started = True, pendingRequests = [7 \<mapsto> 0],
       onmessage = Some (\<lambda>m e. (e, [?late])), promises = [None], engine = ()\<rparr>"
  let ?s1 = "fst (handleJSONRPCMessages ?msgs ?s)"
  note f = fresh_session [where msgs = ?msgs and s = ?s and t = "pendingRequests ?s"]
  have h: "\<forall>r \<in> set ?msgs. isRequestMessage r \<longrightarrow> msg_id r \<noteq> msg_id ?late" by simp
  from f h have dropped: "send ?late ?s1 = ?s1" by blast
  from f have "dom (pendingRequests ?s1) = {i. \<exists>r \<in> set ?msgs. isRequestMessage r \<and> msg_id r = Some i}"
    by blast
  then have "7 \<notin> dom (pendingRequests ?s1)" by simp
  then have gone: "pendingRequests ?s1 7 = None" by blast
  have "promises ?s1 = [None, None]"
    by (simp add: handle_promises isRequestMessage_def)
  with dropped gone show ?thesis by simp
qed

section \<open>Two requests with the same id\<close>

text \<open>
  A promise that is unresolved and that no entry of the table leads to stays unresolved
  under every operation of the adapter.
\<close>

lemma orphan_send:
  assumes "p < length (promises s) \<and> promises s ! p = None \<and> p \<notin> ran (pendingRequests s)"
  shows "p < length (promises (send m s)) \<and> promises (send m s) ! p = None \<and>
         p \<notin> ran (pendingRequests (send m s))"
  using assms by (simp add: send_untouched send_ran)

lemma orphan_handle:
  assumes "p < length (promises s) \<and> promises s ! p = None \<and> p \<notin> ran (pendingRequests s)"
  shows "p < length (promises (fst (handleJSONRPCMessages msgs s))) \<and>
         promises (fst (handleJSONRPCMessages msgs s)) ! p = None \<and>
         p \<notin> ran (pendingRequests (fst (handleJSONRPCMessages msgs s)))"
proof -
  have "p \<notin> ran (pendingRequests (fst (handleJSONRPCMessages msgs s)))"
  proof
    assume "p \<in> ran (pendingRequests (fst (handleJSONRPCMessages msgs s)))"
    then obtain i where "pendingRequests (fst (handleJSONRPCMessages msgs s)) i = Some p"
      by (auto simp add: ran_def)
    from handle_table_cases [OF this] assms show False by auto
  qed
  with assms show ?thesis by (simp add: handle_promises nth_append)
qed

lemma orphan_operation:
  assumes "p < length (promises s) \<and> promises s ! p = None \<and> p \<notin> ran (pendingRequests s)"
  shows "p < length (promises (apply_operation op s)) \<and>
         promises (apply_operation op s) ! p = None \<and>
         p \<notin> ran (pendingRequests (apply_operation op s))"
proof (cases op)
  case Start
  with assms show ?thesis by (simp add: start_def)
next
  case (Send m)
  with orphan_send [OF assms] show ?thesis by simp
next
  case Close
  with assms show ?thesis by (simp add: close_def)
next
  case (SetOnmessage f)
  with assms show ?thesis by simp
next
  case (HandleJSONRPCMessages msgs)
  with orphan_handle [OF assms] show ?thesis by simp
qed

lemma orphan_operations:
  "p < length (promises s) \<and> promises s ! p = None \<and> p \<notin> ran (pendingRequests s) \<Longrightarrow>
   promises (apply_operations ops s) ! p = None"
  unfolding apply_operations_def
proof (induction ops arbitrary: s)
  case Nil
  then show ?case by simp
next
  case (Cons op ops)
  from orphan_operation [OF Cons.prems] show ?case by (simp add: Cons.IH)
qed

lemma send_one_promise:
  "\<exists>q. \<forall>p. p \<noteq> q \<longrightarrow> promises (send m s) ! p = promises s ! p"
proof (cases "\<exists>i q. msg_id m = Some i \<and> pendingRequests s i = Some q")
  case True
  then obtain i q where "msg_id m = Some i" "pendingRequests s i = Some q" by blast
  then have "\<forall>p. p \<noteq> q \<longrightarrow> promises (send m s) ! p = promises s ! p"
    by (simp add: send_def isResponseMessage_def resolve_other)
  then show ?thesis ..
next
  case False
  then have "send m s = s" by (auto simp add: send_def split: option.splits)
  then show ?thesis by simp
qed

text \<open>
  C10. Let two requests of a batch, the \<open>a\<close>-th and a later \<open>b\<close>-th one, carry the same id.
  The call is suspended on one promise for each request, but the table, having one entry
  for an id, leads from that id to the promise of a later request: the entry written for
  the \<open>a\<close>-th has been replaced and no entry leads to its promise. That promise is therefore
  never resolved, whatever operations are applied to the adapter afterwards, and the call
  never returns, whatever the engine sends. A single \<^verbatim>\<open>send\<close> changes at most one promise.
\<close>

theorem earlier_request_orphaned:
  assumes "a < b" and "b < length (filter isRequestMessage msgs)"
    and "msg_id (filter isRequestMessage msgs ! a) = msg_id (filter isRequestMessage msgs ! b)"
  shows "snd (handleJSONRPCMessages msgs s) =
           Awaiting [length (promises s) ..<
                     length (promises s) + length (filter isRequestMessage msgs)] \<and>
         (\<exists>i c. a < c \<and> c < length (filter isRequestMessage msgs) \<and>
            msg_id (filter isRequestMessage msgs ! a) = Some i \<and>
            msg_id (filter isRequestMessage msgs ! c) = Some i \<and>
            pendingRequests (fst (handleJSONRPCMessages msgs s)) i =
              Some (length (promises s) + c)) \<and>
         length (promises s) + a \<notin> ran (pendingRequests (fst (handleJSONRPCMessages msgs s))) \<and>
         (\<forall>ops. promises (apply_operations ops (fst (handleJSONRPCMessages msgs s))) !
                  (length (promises s) + a) = None) \<and>
         (\<forall>sent. snd (invocation msgs sent s) = None) \<and>
         (\<forall>m s'. \<exists>q. \<forall>p. p \<noteq> q \<longrightarrow> promises (send m s') ! p = promises (s' :: ('a, 'b) transport) ! p)"
proof -
  let ?rs = "filter isRequestMessage msgs"
  let ?n = "length (promises s)"
  let ?s1 = "fst (handleJSONRPCMessages msgs s)"
  from assms have a: "a < length ?rs" by simp
  then have "isRequestMessage (?rs ! a)" by (rule request_id)
  then obtain i where i: "msg_id (?rs ! a) = Some i" by (auto simp add: isRequestMessage_def)
  with assms(3) have ib: "msg_id (?rs ! b) = Some i" by simp
  have ne: "?rs \<noteq> []" using a by auto
  then have 1: "snd (handleJSONRPCMessages msgs s) = Awaiting [?n ..< ?n + length ?rs]"
    by (simp add: handle_snd)
  have "Some i \<in> msg_id ` set ?rs" using a i by (metis imageI nth_mem)
  then have "pendingRequests ?s1 i \<noteq> None"
    unfolding handle_fst dispatched table_dom by simp
  then obtain p where p: "pendingRequests ?s1 i = Some p" by auto
  from handle_table_cases [OF p] obtain c where c: "c < length ?rs" "p = ?n + c"
    "msg_id (?rs ! c) = Some i"
    "\<forall>k'. c < k' \<and> k' < length ?rs \<longrightarrow> msg_id (?rs ! k') \<noteq> Some i" by blast
  from c(4) ib assms(2) have "\<not> c < b" by blast
  with assms(1) have "a < c" by simp
  with c i p have 2: "\<exists>i c. a < c \<and> c < length ?rs \<and> msg_id (?rs ! a) = Some i \<and>
      msg_id (?rs ! c) = Some i \<and> pendingRequests ?s1 i = Some (?n + c)" by blast
  have 3: "?n + a \<notin> ran (pendingRequests ?s1)"
  proof
    assume "?n + a \<in> ran (pendingRequests ?s1)"
    then obtain j where "pendingRequests ?s1 j = Some (?n + a)" by (auto simp add: ran_def)
    from handle_table_cases [OF this] obtain k where k: "?n + a = ?n + k" "msg_id (?rs ! k) = Some j"
      "\<forall>k'. k < k' \<and> k' < length ?rs \<longrightarrow> msg_id (?rs ! k') \<noteq> Some j" by blast
    from k(1) have "k = a" by simp
    with k(2,3) i ib assms(1,2) show False by auto
  qed
  have orphan: "?n + a < length (promises ?s1) \<and> promises ?s1 ! (?n + a) = None \<and>
      ?n + a \<notin> ran (pendingRequests ?s1)"
    using 3 a by (simp add: handle_promises nth_append)
  have 4: "\<forall>ops. promises (apply_operations ops ?s1) ! (?n + a) = None"
    using orphan_operations [OF orphan] by blast
  have 5: "snd (invocation msgs sent s) = None" for sent
  proof -
    let ?s2 = "fold send sent ?s1"
    have "promises ?s2 ! (?n + a) = None"
      using fold_send_untouched [OF 3, of sent] orphan by simp
    moreover have "?n + a \<in> set [?n ..< ?n + length ?rs]" using a by simp
    ultimately have "promise_all [?n ..< ?n + length ?rs] (promises ?s2) = None"
      unfolding promise_all_def by (intro those_map_None [where x = "?n + a"]) simp_all
    then show ?thesis using 1 by (simp add: invocation_def split_def Let_def returned_def)
  qed
  show ?thesis using 1 2 3 4 5 send_one_promise by blast
qed

theorem earlier_request_orphaned_witness:
  "invocation
     [\<lparr>msg_method = Some ''tools/call'', msg_id = Some (1::nat), msg_payload = ''a''\<rparr>,
      \<lparr>msg_method = Some ''tools/list'', msg_id = Some 1, msg_payload = ''b''\<rparr>]
     [\<lparr>msg_method = None, msg_id = Some 1, msg_payload = ''first''\<rparr>,
      \<lparr>msg_method = None, msg_id = Some 1, msg_payload = ''second''\<rparr>]
     (new_HttpServerTransport ()) =
   (\<lparr>started = False, pendingRequests = Map.empty, onmessage = None,
     promises = [None, Some \<lparr>msg_method = None, msg_id = Some 1, msg_payload = ''first''\<rparr>],
     engine = ()\<rparr>, None)"
proof -
  let ?msgs = "[\<lparr>msg_method = Some ''tools/call'', msg_id = Some (1::nat), msg_payload = ''a''\<rparr>,
      \<lparr>msg_method = Some ''tools/list'', msg_id = Some 1, msg_payload = ''b''\<rparr>]"
  let ?sent = "[\<lparr>msg_method = None, msg_id = Some (1::nat), msg_payload = ''first''\<rparr>,
      \<lparr>msg_method = None, msg_id = Some 1, msg_payload = ''second''\<rparr>]"
  let ?s = "new_HttpServerTransport () :: (nat, unit) transport"
  have 1: "(0::nat) < 1" by simp
  have 2: "1 < length (filter isRequestMessage ?msgs)" by (simp add: isRequestMessage_def)
  have 3: "msg_id (filter isRequestMessage ?msgs ! 0) = msg_id (filter isRequestMessage ?msgs ! 1)"
    by (simp add: isRequestMessage_def)
  from earlier_request_orphaned [OF 1 2 3, of ?s]
  have "snd (invocation ?msgs ?sent ?s) = None" by blast
  moreover have "fst (invocation ?msgs ?sent ?s) =
    \<lparr>started = False, pendingRequests = Map.empty, onmessage = None,
     promises = [None, Some \<lparr>msg_method = None, msg_id = Some 1, msg_payload = ''first''\<rparr>],
     engine = ()\<rparr>"
    by (simp add: invocation_def handleJSONRPCMessages_def startFreshSession_def
      new_HttpServerTransport_def isRequestMessage_def isResponseMessage_def send_def
      resolve_def Let_def deliver_def pendingPromise_def split_def)
  ultimately show ?thesis by (simp add: prod_eq_iff)
qed

section \<open>Negotiation and parsing in \<^verbatim>\<open>before\<close>\<close>

lemma string_includes_sublist: "string_includes s searchString \<longleftrightarrow> sublist searchString s"
  by (induction s) (simp_all add: sublist_Cons_right)

lemma before_not_acceptable:
  assumes "\<forall>v. header_value (headers ev) ''accept'' ''Accept'' = Some v \<longrightarrow>
             \<not> string_includes v ''application/json''"
  shows "before lib ev ctx =
     (ctx, Inl \<lparr>status = 406, envelope = \<lparr>jsonrpc = ''2.0'',
        error = \<lparr>code = - 32000,
                 message = ''Not Acceptable: Client must accept application/json''\<rparr>,
        id_field = 123\<rparr>\<rparr>)"
  using assms by (simp add: before_def createMcpError_def Let_def split: option.splits)

lemma before_unsupported:
  assumes "header_value (headers ev) ''accept'' ''Accept'' = Some a"
    and "string_includes a ''application/json''"
    and "\<forall>v. header_value (headers ev) ''content-type'' ''Content-Type'' = Some v \<longrightarrow>
             \<not> string_includes v ''application/json''"
  shows "before lib ev ctx =
     (ctx, Inl \<lparr>status = 415, envelope = \<lparr>jsonrpc = ''2.0'',
        error = \<lparr>code = - 32000,
                 message = ''Unsupported Media Type: Content-Type must be application/json''\<rparr>,
        id_field = 123\<rparr>\<rparr>)"
  using assms by (simp add: before_def createMcpError_def Let_def split: option.splits)

lemma before_negotiated:
  assumes "header_value (headers ev) ''accept'' ''Accept'' = Some a"
    and "string_includes a ''application/json''"
    and "header_value (headers ev) ''content-type'' ''Content-Type'' = Some c"
    and "string_includes c ''application/json''"
  shows "before lib ev ctx =
     (case parse_body lib ev of
        None \<Rightarrow> (ctx, Inl \<lparr>status = 422, envelope = \<lparr>jsonrpc = ''2.0'',
           error = \<lparr>code = - 32000,
                    message = ''Unprocessable Entity: Invalid or malformed JSON was provided''\<rparr>,
           id_field = 123\<rparr>\<rparr>)
      | Some msgs \<Rightarrow> (ctx\<lparr>jsonRPCMessages := Some msgs\<rparr>, Inr ()))"
  using assms by (simp add: before_def createMcpError_def Let_def split: option.splits)

lemma before_error:
  assumes "before lib ev ctx = (ctx', Inl e)"
  shows "ctx' = ctx \<and> status e \<in> {406, 415, 422} \<and> jsonrpc (envelope e) = ''2.0'' \<and>
         id_field (envelope e) = 123 \<and> code (error (envelope e)) = - 32000"
  using assms
  by (auto simp add: before_def createMcpError_def Let_def split: option.splits if_splits)

lemma parse_body_headers: "parse_body lib (ev\<lparr>headers := hs\<rparr>) = parse_body lib ev"
  by (simp add: parse_body_def split: option.splits)

lemma parse_body_Some:
  assumes "body ev = Some b"
    and "(if isBase64Encoded ev then base64_toString lib b else Some b) = Some d"
    and "JSON_parse lib d = Some j"
    and "\<forall>x \<in> set (as_array j). JSONRPCMessageSchema lib x \<noteq> None"
  shows "parse_body lib ev = Some (map (\<lambda>x. the (JSONRPCMessageSchema lib x)) (as_array j))"
proof -
  have "those (map (JSONRPCMessageSchema lib) (as_array j)) =
          Some (map (\<lambda>x. the (JSONRPCMessageSchema lib x)) (as_array j))"
    using assms(4) by (intro those_map_Some) simp
  with assms(1,2,3) show ?thesis by (simp add: parse_body_def)
qed

lemma parse_body_None:
  assumes "body ev = None \<or>
      (\<exists>b. body ev = Some b \<and>
         ((if isBase64Encoded ev then base64_toString lib b else Some b) = None \<or>
          (\<exists>d. (if isBase64Encoded ev then base64_toString lib b else Some b) = Some d \<and>
             (JSON_parse lib d = None \<or>
              (\<exists>j x. JSON_parse lib d = Some j \<and> x \<in> set (as_array j) \<and>
                 JSONRPCMessageSchema lib x = None)))))"
  shows "parse_body lib ev = None"
  using assms
  by (auto simp add: parse_body_def those_map_None split: option.splits if_splits)

text \<open>
  C5. If the accept header is missing or does not include \<^verbatim>\<open>application/json\<close>, \<^verbatim>\<open>before\<close>
  throws the error with status 406, whatever the body, the encoding flag and the content
  type are. Otherwise, if the content-type header is missing or does not include
  \<^verbatim>\<open>application/json\<close>, it throws the error with status 415, again whatever the body is.
  Every error \<^verbatim>\<open>before\<close> throws has status 406, 415 or 422, leaves the context as it
  was, and carries the object with \<^verbatim>\<open>jsonrpc\<close> 2.0, id 123 and error code -32000.
\<close>

theorem negotiation:
  "((\<forall>v. header_value (headers ev) ''accept'' ''Accept'' = Some v \<longrightarrow>
        \<not> string_includes v ''application/json'') \<longrightarrow>
      (\<forall>lib' b f. before lib' (ev\<lparr>body := b, isBase64Encoded := f\<rparr>) ctx =
         (ctx, Inl \<lparr>status = 406, envelope = \<lparr>jsonrpc = ''2.0'',
            error = \<lparr>code = - 32000,
                     message = ''Not Acceptable: Client must accept application/json''\<rparr>,
            id_field = 123\<rparr>\<rparr>))) \<and>
   ((\<exists>a. header_value (headers ev) ''accept'' ''Accept'' = Some a \<and>
          string_includes a ''application/json'') \<and>
    (\<forall>v. header_value (headers ev) ''content-type'' ''Content-Type'' = Some v \<longrightarrow>
        \<not> string_includes v ''application/json'') \<longrightarrow>
      (\<forall>lib' b f. before lib' (ev\<lparr>body := b, isBase64Encoded := f\<rparr>) ctx =
         (ctx, Inl \<lparr>status = 415, envelope = \<lparr>jsonrpc = ''2.0'',
            error = \<lparr>code = - 32000,
                     message = ''Unsupported Media Type: Content-Type must be application/json''\<rparr>,
            id_field = 123\<rparr>\<rparr>))) \<and>
   (\<forall>ctx' e. before lib ev ctx = (ctx', Inl e) \<longrightarrow>
      ctx' = ctx \<and> status e \<in> {406, 415, 422} \<and> jsonrpc (envelope e) = ''2.0'' \<and>
      id_field (envelope e) = 123 \<and> code (error (envelope e)) = - 32000)"
proof (intro conjI impI allI)
  fix lib' b f
  assume "\<forall>v. header_value (headers ev) ''accept'' ''Accept'' = Some v \<longrightarrow>
        \<not> string_includes v ''application/json''"
  then show "before lib' (ev\<lparr>body := b, isBase64Encoded := f\<rparr>) ctx =
         (ctx, Inl \<lparr>status = 406, envelope = \<lparr>jsonrpc = ''2.0'',
            error = \<lparr>code = - 32000,
                     message = ''Not Acceptable: Client must accept application/json''\<rparr>,
            id_field = 123\<rparr>\<rparr>)"
    by (intro before_not_acceptable) simp
next
  fix lib' b f
  assume a: "(\<exists>a. header_value (headers ev) ''accept'' ''Accept'' = Some a \<and>
          string_includes a ''application/json'') \<and>
    (\<forall>v. header_value (headers ev) ''content-type'' ''Content-Type'' = Some v \<longrightarrow>
        \<not> string_includes v ''application/json'')"
  then obtain a where "header_value (headers ev) ''accept'' ''Accept'' = Some a"
    "string_includes a ''application/json''" by blast
  with a show "before lib' (ev\<lparr>body := b, isBase64Encoded := f\<rparr>) ctx =
         (ctx, Inl \<lparr>status = 415, envelope = \<lparr>jsonrpc = ''2.0'',
            error = \<lparr>code = - 32000,
                     message = ''Unsupported Media Type: Content-Type must be application/json''\<rparr>,
            id_field = 123\<rparr>\<rparr>)"
    by (intro before_unsupported [where a = a]) simp_all
next
  fix ctx' e
  assume "before lib ev ctx = (ctx', Inl e)"
  from before_error [OF this]
  show "ctx' = ctx" "status e \<in> {406, 415, 422}" "jsonrpc (envelope e) = ''2.0''"
    "id_field (envelope e) = 123" "code (error (envelope e)) = - 32000" by simp_all
qed

theorem negotiation_witness:
  "before \<lparr>base64_toString = Some, JSON_parse = (\<lambda>s. None),
           JSONRPCMessageSchema = (\<lambda>j. None :: nat message option)\<rparr>
     \<lparr>headers = Some [''content-type'' \<mapsto> ''application/json''], body = Some ''{}'',
      isBase64Encoded = False\<rparr>
     \<lparr>jsonRPCMessages = None\<rparr> =
     (\<lparr>jsonRPCMessages = None\<rparr>,
      Inl \<lparr>status = 406, envelope = \<lparr>jsonrpc = ''2.0'',
            error = \<lparr>code = - 32000,
                     message = ''Not Acceptable: Client must accept application/json''\<rparr>,
            id_field = 123\<rparr>\<rparr>) \<and>
   before \<lparr>base64_toString = Some, JSON_parse = (\<lambda>s. None),
           JSONRPCMessageSchema = (\<lambda>j. None :: nat message option)\<rparr>
     \<lparr>headers = Some [''accept'' \<mapsto> ''text/html, application/json'',
                       ''content-type'' \<mapsto> ''text/plain''], body = None,
      isBase64Encoded = True\<rparr>
     \<lparr>jsonRPCMessages = None\<rparr> =
     (\<lparr>jsonRPCMessages = None\<rparr>,
      Inl \<lparr>status = 415, envelope = \<lparr>jsonrpc = ''2.0'',
            error = \<lparr>code = - 32000,
                     message = ''Unsupported Media Type: Content-Type must be application/json''\<rparr>,
            id_field = 123\<rparr>\<rparr>)"
proof -
  let ?lib = "\<lparr>base64_toString = Some, JSON_parse = (\<lambda>s. None),
           JSONRPCMessageSchema = (\<lambda>j. None :: nat message option)\<rparr>"
  let ?ev1 = "\<lparr>headers = Some [''content-type'' \<mapsto> ''application/json''], body = Some ''{}'',
      isBase64Encoded = False\<rparr>"
  let ?ev2 = "\<lparr>headers = Some [''accept'' \<mapsto> ''text/html, application/json'',
                       ''content-type'' \<mapsto> ''text/plain''], body = None,
      isBase64Encoded = True\<rparr>"
  have h1: "\<forall>v. header_value (headers ?ev1) ''accept'' ''Accept'' = Some v \<longrightarrow>
        \<not> string_includes v ''application/json''"
    by (simp add: header_value_def)
  have h2: "(\<exists>a. header_value (headers ?ev2) ''accept'' ''Accept'' = Some a \<and>
          string_includes a ''application/json'') \<and>
    (\<forall>v. header_value (headers ?ev2) ''content-type'' ''Content-Type'' = Some v \<longrightarrow>
        \<not> string_includes v ''application/json'')"
    by (simp add: header_value_def)
  from negotiation [of ?ev1 "\<lparr>jsonRPCMessages = None\<rparr>" ?lib] h1
  have 1: "before ?lib (?ev1\<lparr>body := Some ''{}'', isBase64Encoded := False\<rparr>) \<lparr>jsonRPCMessages = None\<rparr> =
     (\<lparr>jsonRPCMessages = None\<rparr>,
      Inl \<lparr>status = 406, envelope = \<lparr>jsonrpc = ''2.0'',
            error = \<lparr>code = - 32000,
                     message = ''Not Acceptable: Client must accept application/json''\<rparr>,
            id_field = 123\<rparr>\<rparr>)" by blast
  from negotiation [of ?ev2 "\<lparr>jsonRPCMessages = None\<rparr>" ?lib] h2
  have 2: "before ?lib (?ev2\<lparr>body := None, isBase64Encoded := True\<rparr>) \<lparr>jsonRPCMessages = None\<rparr> =
     (\<lparr>jsonRPCMessages = None\<rparr>,
      Inl \<lparr>status = 415, envelope = \<lparr>jsonrpc = ''2.0'',
            error = \<lparr>code = - 32000,
                     message = ''Unsupported Media Type: Content-Type must be application/json''\<rparr>,
            id_field = 123\<rparr>\<rparr>)" by blast
  from 1 2 show ?thesis by simp
qed

text \<open>
  C9. The headers are looked up under the keys \<^verbatim>\<open>accept\<close>, \<^verbatim>\<open>Accept\<close>, \<^verbatim>\<open>content-type\<close> and
  \<^verbatim>\<open>Content-Type\<close> only: setting, changing or removing a header under any other key does
  not change what \<^verbatim>\<open>before\<close> does. A request with neither \<^verbatim>\<open>accept\<close> nor \<^verbatim>\<open>Accept\<close> is rejected
  with 406, whatever else it carries (an \<^verbatim>\<open>ACCEPT\<close> header, say); one that is acceptable and
  has neither \<^verbatim>\<open>content-type\<close> nor \<^verbatim>\<open>Content-Type\<close> is rejected with 415.
\<close>

theorem header_spellings:
  "(k \<notin> {''accept'', ''Accept'', ''content-type'', ''Content-Type''} \<longrightarrow>
      before lib (ev\<lparr>headers := Some (h(k := v))\<rparr>) ctx =
      before lib (ev\<lparr>headers := Some h\<rparr>) ctx) \<and>
   (h ''accept'' = None \<and> h ''Accept'' = None \<longrightarrow>
      before lib (ev\<lparr>headers := Some h\<rparr>) ctx =
        (ctx, Inl \<lparr>status = 406, envelope = \<lparr>jsonrpc = ''2.0'',
            error = \<lparr>code = - 32000,
                     message = ''Not Acceptable: Client must accept application/json''\<rparr>,
            id_field = 123\<rparr>\<rparr>)) \<and>
   ((\<exists>a. header_value (Some h) ''accept'' ''Accept'' = Some a \<and>
          string_includes a ''application/json'') \<and>
    h ''content-type'' = None \<and> h ''Content-Type'' = None \<longrightarrow>
      before lib (ev\<lparr>headers := Some h\<rparr>) ctx =
        (ctx, Inl \<lparr>status = 415, envelope = \<lparr>jsonrpc = ''2.0'',
            error = \<lparr>code = - 32000,
                     message = ''Unsupported Media Type: Content-Type must be application/json''\<rparr>,
            id_field = 123\<rparr>\<rparr>))"
proof (intro conjI impI)
  assume k: "k \<notin> {''accept'', ''Accept'', ''content-type'', ''Content-Type''}"
  then have "header_value (Some (h(k := v))) ''accept'' ''Accept'' =
             header_value (Some h) ''accept'' ''Accept''"
    and "header_value (Some (h(k := v))) ''content-type'' ''Content-Type'' =
             header_value (Some h) ''content-type'' ''Content-Type''"
    by (auto simp add: header_value_def split: option.splits)
  then show "before lib (ev\<lparr>headers := Some (h(k := v))\<rparr>) ctx =
      before lib (ev\<lparr>headers := Some h\<rparr>) ctx"
    by (simp add: before_def parse_body_headers)
next
  assume "h ''accept'' = None \<and> h ''Accept'' = None"
  then show "before lib (ev\<lparr>headers := Some h\<rparr>) ctx =
        (ctx, Inl \<lparr>status = 406, envelope = \<lparr>jsonrpc = ''2.0'',
            error = \<lparr>code = - 32000,
                     message = ''Not Acceptable: Client must accept application/json''\<rparr>,
            id_field = 123\<rparr>\<rparr>)"
    by (intro before_not_acceptable) (simp add: header_value_def)
next
  assume a: "(\<exists>a. header_value (Some h) ''accept'' ''Accept'' = Some a \<and>
          string_includes a ''application/json'') \<and>
    h ''content-type'' = None \<and> h ''Content-Type'' = None"
  then obtain a where "header_value (Some h) ''accept'' ''Accept'' = Some a"
    "string_includes a ''application/json''" by blast
  with a show "before lib (ev\<lparr>headers := Some h\<rparr>) ctx =
        (ctx, Inl \<lparr>status = 415, envelope = \<lparr>jsonrpc = ''2.0'',
            error = \<lparr>code = - 32000,
                     message = ''Unsupported Media Type: Content-Type must be application/json''\<rparr>,
            id_field = 123\<rparr>\<rparr>)"
    by (intro before_unsupported [where a = a]) (simp_all add: header_value_def)
qed

theorem header_spellings_witness:
  "before \<lparr>base64_toString = Some, JSON_parse = (\<lambda>s. None),
           JSONRPCMessageSchema = (\<lambda>j. None :: nat message option)\<rparr>
     \<lparr>headers = Some [''ACCEPT'' \<mapsto> ''application/json'',
                       ''content-type'' \<mapsto> ''application/json''],
      body = Some ''{}'', isBase64Encoded = False\<rparr>
     \<lparr>jsonRPCMessages = None\<rparr> =
     (\<lparr>jsonRPCMessages = None\<rparr>,
      Inl \<lparr>status = 406, envelope = \<lparr>jsonrpc = ''2.0'',
            error = \<lparr>code = - 32000,
                     message = ''Not Acceptable: Client must accept application/json''\<rparr>,
            id_field = 123\<rparr>\<rparr>) \<and>
   before \<lparr>base64_toString = Some, JSON_parse = (\<lambda>s. None),
           JSONRPCMessageSchema = (\<lambda>j. None :: nat message option)\<rparr>
     \<lparr>headers = Some [''Accept'' \<mapsto> ''application/json'',
                       ''CONTENT-TYPE'' \<mapsto> ''application/json''],
      body = Some ''{}'', isBase64Encoded = False\<rparr>
     \<lparr>jsonRPCMessages = None\<rparr> =
     (\<lparr>jsonRPCMessages = None\<rparr>,
      Inl \<lparr>status = 415, envelope = \<lparr>jsonrpc = ''2.0'',
            error = \<lparr>code = - 32000,
                     message = ''Unsupported Media Type: Content-Type must be application/json''\<rparr>,
            id_field = 123\<rparr>\<rparr>)"
proof -
  let ?lib = "\<lparr>base64_toString = Some, JSON_parse = (\<lambda>s. None),
           JSONRPCMessageSchema = (\<lambda>j. None :: nat message option)\<rparr>"
  let ?h1 = "[''ACCEPT'' \<mapsto> ''application/json'', ''content-type'' \<mapsto> ''application/json'']"
  let ?h2 = "[''Accept'' \<mapsto> ''application/json'', ''CONTENT-TYPE'' \<mapsto> ''application/json'']"
  let ?ev = "\<lparr>headers = None, body = Some ''{}'', isBase64Encoded = False\<rparr>"
  have h1: "?h1 ''accept'' = None \<and> ?h1 ''Accept'' = None" by simp
  have h2: "(\<exists>a. header_value (Some ?h2) ''accept'' ''Accept'' = Some a \<and>
          string_includes a ''application/json'') \<and>
    ?h2 ''content-type'' = None \<and> ?h2 ''Content-Type'' = None"
    by (simp add: header_value_def)
  from header_spellings [where h = ?h1 and ev = ?ev and lib = ?lib
      and ctx = "\<lparr>jsonRPCMessages = None\<rparr>"] h1
  have 1: "before ?lib (?ev\<lparr>headers := Some ?h1\<rparr>) \<lparr>jsonRPCMessages = None\<rparr> =
     (\<lparr>jsonRPCMessages = None\<rparr>,
      Inl \<lparr>status = 406, envelope = \<lparr>jsonrpc = ''2.0'',
            error = \<lparr>code = - 32000,
                     message = ''Not Acceptable: Client must accept application/json''\<rparr>,
            id_field = 123\<rparr>\<rparr>)" by blast
  from header_spellings [where h = ?h2 and ev = ?ev and lib = ?lib
      and ctx = "\<lparr>jsonRPCMessages = None\<rparr>"] h2
  have 2: "before ?lib (?ev\<lparr>headers := Some ?h2\<rparr>) \<lparr>jsonRPCMessages = None\<rparr> =
     (\<lparr>jsonRPCMessages = None\<rparr>,
      Inl \<lparr>status = 415, envelope = \<lparr>jsonrpc = ''2.0'',
            error = \<lparr>code = - 32000,
                     message = ''Unsupported Media Type: Content-Type must be application/json''\<rparr>,
            id_field = 123\<rparr>\<rparr>)" by blast
  from 1 2 show ?thesis by simp
qed

text \<open>
  C6. For a request that passes the negotiation of the headers: without the encoding flag
  the decoder plays no part; with the flag the request is treated as the request without
  flag whose body is the decoded body. A parsed value that is not an array counts as the
  array of that one value. If every element of the array passes the schema, the messages
  are stored in the context, in order. If the body is missing, or decoding or parsing
  throws, or one element of the array fails the schema, \<^verbatim>\<open>before\<close> throws the error with
  status 422 and the context stays as it was: no part of the batch is stored.
\<close>

theorem body_all_or_nothing:
  assumes "header_value (headers ev) ''accept'' ''Accept'' = Some a"
    and "string_includes a ''application/json''"
    and "header_value (headers ev) ''content-type'' ''Content-Type'' = Some c"
    and "string_includes c ''application/json''"
  shows "(\<not> isBase64Encoded ev \<longrightarrow>
            before (lib\<lparr>base64_toString := decode\<rparr>) ev ctx = before lib ev ctx) \<and>
         (\<forall>b d. isBase64Encoded ev \<and> body ev = Some b \<and> base64_toString lib b = Some d \<longrightarrow>
            before lib ev ctx =
            before lib (ev\<lparr>body := Some d, isBase64Encoded := False\<rparr>) ctx) \<and>
         as_array (JObject kvs) = [JObject kvs] \<and> as_array (JArray xs) = xs \<and>
         (\<forall>b d j. body ev = Some b \<and>
            (if isBase64Encoded ev then base64_toString lib b else Some b) = Some d \<and>
            JSON_parse lib d = Some j \<and>
            (\<forall>x \<in> set (as_array j). JSONRPCMessageSchema lib x \<noteq> None) \<longrightarrow>
            before lib ev ctx =
              (ctx\<lparr>jsonRPCMessages :=
                  Some (map (\<lambda>x. the (JSONRPCMessageSchema lib x)) (as_array j))\<rparr>, Inr ())) \<and>
         (body ev = None \<or>
          (\<exists>b. body ev = Some b \<and>
             ((if isBase64Encoded ev then base64_toString lib b else Some b) = None \<or>
              (\<exists>d. (if isBase64Encoded ev then base64_toString lib b else Some b) = Some d \<and>
                 (JSON_parse lib d = None \<or>
                  (\<exists>j x. JSON_parse lib d = Some j \<and> x \<in> set (as_array j) \<and>
                     JSONRPCMessageSchema lib x = None))))) \<longrightarrow>
            before lib ev ctx =
              (ctx, Inl \<lparr>status = 422, envelope = \<lparr>jsonrpc = ''2.0'',
                 error = \<lparr>code = - 32000,
                   message = ''Unprocessable Entity: Invalid or malformed JSON was provided''\<rparr>,
                 id_field = 123\<rparr>\<rparr>))"
proof (intro conjI impI allI)
  note neg = before_negotiated [OF assms]
  have neg': "before lib' (ev\<lparr>body := b', isBase64Encoded := f'\<rparr>) ctx' =
     (case parse_body lib' (ev\<lparr>body := b', isBase64Encoded := f'\<rparr>) of
        None \<Rightarrow> (ctx', Inl \<lparr>status = 422, envelope = \<lparr>jsonrpc = ''2.0'',
           error = \<lparr>code = - 32000,
                    message = ''Unprocessable Entity: Invalid or malformed JSON was provided''\<rparr>,
           id_field = 123\<rparr>\<rparr>)
      | Some msgs \<Rightarrow> (ctx'\<lparr>jsonRPCMessages := Some msgs\<rparr>, Inr ()))"
    for lib' :: "'a library" and b' f' ctx'
    using assms by (intro before_negotiated [where a = a and c = c]) simp_all
  {
    assume "\<not> isBase64Encoded ev"
    then have "parse_body (lib\<lparr>base64_toString := decode\<rparr>) ev = parse_body lib ev"
      by (simp add: parse_body_def split: option.splits)
    then show "before (lib\<lparr>base64_toString := decode\<rparr>) ev ctx = before lib ev ctx"
      by (simp add: neg)
  }
  {
    fix b d
    assume "isBase64Encoded ev \<and> body ev = Some b \<and> base64_toString lib b = Some d"
    then have "parse_body lib ev = parse_body lib (ev\<lparr>body := Some d, isBase64Encoded := False\<rparr>)"
      by (simp add: parse_body_def)
    then show "before lib ev ctx =
            before lib (ev\<lparr>body := Some d, isBase64Encoded := False\<rparr>) ctx"
      by (simp add: neg neg')
  }
  show "as_array (JObject kvs) = [JObject kvs]" by (simp add: as_array_def)
  show "as_array (JArray xs) = xs" by (simp add: as_array_def)
  {
    fix b d j
    assume "body ev = Some b \<and>
            (if isBase64Encoded ev then base64_toString lib b else Some b) = Some d \<and>
            JSON_parse lib d = Some j \<and>
            (\<forall>x \<in> set (as_array j). JSONRPCMessageSchema lib x \<noteq> None)"
    then have "parse_body lib ev = Some (map (\<lambda>x. the (JSONRPCMessageSchema lib x)) (as_array j))"
      by (intro parse_body_Some [where b = b and d = d]) simp_all
    then show "before lib ev ctx =
              (ctx\<lparr>jsonRPCMessages :=
                  Some (map (\<lambda>x. the (JSONRPCMessageSchema lib x)) (as_array j))\<rparr>, Inr ())"
      by (simp add: neg)
  }
  {
    assume "body ev = None \<or>
          (\<exists>b. body ev = Some b \<and>
             ((if isBase64Encoded ev then base64_toString lib b else Some b) = None \<or>
              (\<exists>d. (if isBase64Encoded ev then base64_toString lib b else Some b) = Some d \<and>
                 (JSON_parse lib d = None \<or>
                  (\<exists>j x. JSON_parse lib d = Some j \<and> x \<in> set (as_array j) \<and>
                     JSONRPCMessageSchema lib x = None)))))"
    then have "parse_body lib ev = None" by (rule parse_body_None)
    then show "before lib ev ctx =
              (ctx, Inl \<lparr>status = 422, envelope = \<lparr>jsonrpc = ''2.0'',
                 error = \<lparr>code = - 32000,
                   message = ''Unprocessable Entity: Invalid or malformed JSON was provided''\<rparr>,
                 id_field = 123\<rparr>\<rparr>)"
      by (simp add: neg)
  }
qed

theorem body_all_or_nothing_witness:
  "before
     \<lparr>base64_toString = (\<lambda>s. if s = ''e21ldGhvZDpwaW5nfQ=='' then Some ''{method:ping}'' else None),
      JSON_parse = (\<lambda>s. if s = ''{method:ping}'' then Some (JObject [(''method'', JString ''ping'')])
                         else if s = ''[{method:ping},1]''
                         then Some (JArray [JObject [(''method'', JString ''ping'')], JNumber 1])
                         else None),
      JSONRPCMessageSchema = (\<lambda>j. if j = JObject [(''method'', JString ''ping'')]
                         then Some \<lparr>msg_method = Some ''ping'', msg_id = None :: nat option,
                                    msg_payload = ''''\<rparr>
                         else None)\<rparr>
     \<lparr>headers = Some [''accept'' \<mapsto> ''application/json'',
                       ''Content-Type'' \<mapsto> ''application/json; charset=utf-8''],
      body = Some ''e21ldGhvZDpwaW5nfQ=='', isBase64Encoded = True\<rparr>
     \<lparr>jsonRPCMessages = None\<rparr> =
     (\<lparr>jsonRPCMessages = Some [\<lparr>msg_method = Some ''ping'', msg_id = None, msg_payload = ''''\<rparr>]\<rparr>,
      Inr ()) \<and>
   before
     \<lparr>base64_toString = (\<lambda>s. if s = ''e21ldGhvZDpwaW5nfQ=='' then Some ''{method:ping}'' else None),
      JSON_parse = (\<lambda>s. if s = ''{method:ping}'' then Some (JObject [(''method'', JString ''ping'')])
                         else if s = ''[{method:ping},1]''
                         then Some (JArray [JObject [(''method'', JString ''ping'')], JNumber 1])
                         else None),
      JSONRPCMessageSchema = (\<lambda>j. if j = JObject [(''method'', JString ''ping'')]
                         then Some \<lparr>msg_method = Some ''ping'', msg_id = None :: nat option,
                                    msg_payload = ''''\<rparr>
                         else None)\<rparr>
     \<lparr>headers = Some [''accept'' \<mapsto> ''application/json'',
                       ''Content-Type'' \<mapsto> ''application/json; charset=utf-8''],
      body = Some ''[{method:ping},1]'', isBase64Encoded = False\<rparr>
     \<lparr>jsonRPCMessages = None\<rparr> =
     (\<lparr>jsonRPCMessages = None\<rparr>,
      Inl \<lparr>status = 422, envelope = \<lparr>jsonrpc = ''2.0'',
                 error = \<lparr>code = - 32000,
                   message = ''Unprocessable Entity: Invalid or malformed JSON was provided''\<rparr>,
                 id_field = 123\<rparr>\<rparr>)"
proof -
  let ?ping = "\<lparr>msg_method = Some ''ping'', msg_id = None :: nat option, msg_payload = ''''\<rparr>"
  let ?lib = "\<lparr>base64_toString = (\<lambda>s. if s = ''e21ldGhvZDpwaW5nfQ=='' then Some ''{method:ping}'' else None),
      JSON_parse = (\<lambda>s. if s = ''{method:ping}'' then Some (JObject [(''method'', JString ''ping'')])
                         else if s = ''[{method:ping},1]''
                         then Some (JArray [JObject [(''method'', JString ''ping'')], JNumber 1])
                         else None),
      JSONRPCMessageSchema = (\<lambda>j. if j = JObject [(''method'', JString ''ping'')]
                         then Some ?ping else None)\<rparr>"
  let ?hs = "Some [''accept'' \<mapsto> ''application/json'',
                       ''Content-Type'' \<mapsto> ''application/json; charset=utf-8'']"
  let ?ev1 = "\<lparr>headers = ?hs, body = Some ''e21ldGhvZDpwaW5nfQ=='', isBase64Encoded = True\<rparr>"
  let ?ev2 = "\<lparr>headers = ?hs, body = Some ''[{method:ping},1]'', isBase64Encoded = False\<rparr>"
  let ?ctx = "\<lparr>jsonRPCMessages = None :: nat message list option\<rparr>"
  have a1: "header_value (headers ?ev1) ''accept'' ''Accept'' = Some ''application/json''"
    and a2: "header_value (headers ?ev2) ''accept'' ''Accept'' = Some ''application/json''"
    by (simp_all add: header_value_def)
  have c1: "header_value (headers ?ev1) ''content-type'' ''Content-Type'' =
      Some ''application/json; charset=utf-8''"
    and c2: "header_value (headers ?ev2) ''content-type'' ''Content-Type'' =
      Some ''application/json; charset=utf-8''"
    by (simp_all add: header_value_def)
  have ia: "string_includes ''application/json'' ''application/json''" by simp
  have ic: "string_includes ''application/json; charset=utf-8'' ''application/json''" by simp
  have ok: "body ?ev1 = Some ''e21ldGhvZDpwaW5nfQ=='' \<and>
      (if isBase64Encoded ?ev1 then base64_toString ?lib ''e21ldGhvZDpwaW5nfQ=='' 
       else Some ''e21ldGhvZDpwaW5nfQ=='') = Some ''{method:ping}'' \<and>
      JSON_parse ?lib ''{method:ping}'' = Some (JObject [(''method'', JString ''ping'')]) \<and>
      (\<forall>x \<in> set (as_array (JObject [(''method'', JString ''ping'')])).
          JSONRPCMessageSchema ?lib x \<noteq> None)"
    by (simp add: as_array_def)
  have bad: "body ?ev2 = None \<or>
          (\<exists>b. body ?ev2 = Some b \<and>
             ((if isBase64Encoded ?ev2 then base64_toString ?lib b else Some b) = None \<or>
              (\<exists>d. (if isBase64Encoded ?ev2 then base64_toString ?lib b else Some b) = Some d \<and>
                 (JSON_parse ?lib d = None \<or>
                  (\<exists>j x. JSON_parse ?lib d = Some j \<and> x \<in> set (as_array j) \<and>
                     JSONRPCMessageSchema ?lib x = None)))))"
    by (simp add: as_array_def) (rule exI [of _ "JNumber 1"], simp)
  note t1 = body_all_or_nothing [where lib = ?lib and ctx = ?ctx, OF a1 ia c1 ic]
  note t2 = body_all_or_nothing [where lib = ?lib and ctx = ?ctx, OF a2 ia c2 ic]
  note 1 = t1 [THEN conjunct2, THEN conjunct2, THEN conjunct2, THEN conjunct2, THEN conjunct1,
      rule_format, OF ok]
  note 2 = t2 [THEN conjunct2, THEN conjunct2, THEN conjunct2, THEN conjunct2, THEN conjunct2,
      rule_format, OF bad]
  from 1 2 show ?thesis by (simp add: as_array_def)
qed

end
